theory Spec2Isabelle
  imports Complex_Main
begin

section \<open>The upload manager of \<^verbatim>\<open>src/background.js\<close>\<close>

text \<open>
  The class \<^verbatim>\<open>UploadManager\<close> keeps a JavaScript \<^verbatim>\<open>Map\<close> from upload ids to
  upload objects, persists it as one JSON text under the storage key \<^verbatim>\<open>uploads\<close>, and
  drives a resumable upload by sending byte ranges with \<^verbatim>\<open>fetch\<close>.

  Conventions of the embedding.
  \<^item> JavaScript numbers that hold byte counts, sizes and time stamps are \<open>int\<close>: the
    source only adds, compares and takes minima of them, which is exact below \<open>2^53\<close>.
    The field \<^verbatim>\<open>progress\<close> is a quotient computed in floating point by the source; it is
    carried as a \<open>rat\<close>, no statement below depends on its value.
  \<^item> Upload objects live in a store (\<open>heap\<close>) and the \<^verbatim>\<open>Map\<close> holds their addresses,
    because a running task keeps its object in a local variable while handlers update
    or remove the entry of the \<^verbatim>\<open>Map\<close>.
  \<^item> An upload object is a record with the properties that \<^verbatim>\<open>startUpload\<close> gives it. The
    stored text may also hold values that are no such objects; those that have none of
    the properties the source reads are covered (\<open>other_value\<close>), an object with only
    some of the properties is not.
  \<^item> The id in a request is a string.
  \<^item> What an \<^verbatim>\<open>await\<close> receives (a token, a response, a rejected promise) is an
    argument of the function that awaits. The handlers that may run while a transfer is
    suspended at an \<^verbatim>\<open>await\<close> are arguments too (type \<open>interference\<close>).
  \<^item> Requests sent, delays and messages to the user interface are appended to the
    log \<open>effects\<close>; the storage area is a field of the state. A storage write is taken
    to succeed (the source swallows its failure and goes on).
\<close>

subsection \<open>Records and the state\<close>

type_synonym addr = nat

record file_info =
  f_name :: string
  f_size :: int
  f_type :: string
  f_lastModified :: int

record upload =
  upload_id :: string
  ufile :: file_info
  status :: string
  progress :: rat
  uploadedBytes :: int
  chunkSize :: int
  folderId :: "string option"
  chunks :: "string list"
  sessionUri :: "string option"
  startTime :: int
  endTime :: "int option"
  error :: "string option"

text \<open>
  A value of the stored array that is neither \<^verbatim>\<open>null\<close> nor an upload object and has
  no property that the source reads: a number, a string, a truth value, an empty object
  or an empty array. Its \<^verbatim>\<open>id\<close>, like every other property, reads \<^verbatim>\<open>undefined\<close>.
\<close>

datatype other_value =
    NumberValue rat
  | StringValue string
  | BoolValue bool
  | EmptyObject
  | EmptyArray

text \<open>
  An entry of the stored array: \<^verbatim>\<open>null\<close> (reading \<^verbatim>\<open>.id\<close> of \<^verbatim>\<open>null\<close> throws), an
  upload object, or another value.
\<close>

datatype stored_entry = NullEntry | UploadEntry upload | OtherEntry other_value

text \<open>
  What \<^verbatim>\<open>storage.local.get(['uploads'])\<close> followed by \<^verbatim>\<open>JSON.parse\<close> can meet: nothing
  stored (or an empty string, which is falsy), a text that \<^verbatim>\<open>JSON.parse\<close> rejects, a
  JSON value that is no array (it has no \<^verbatim>\<open>forEach\<close>), or an array of entries.
\<close>

datatype snapshot = NoUploads | BadJson | NotArray | Entries "stored_entry list"

text \<open>
  A key of the \<^verbatim>\<open>Map\<close>: the \<^verbatim>\<open>id\<close> of the value entered, a string for an upload object
  and \<^verbatim>\<open>undefined\<close> for a value without an \<^verbatim>\<open>id\<close>.
\<close>

datatype map_key = Undefined | Key string

text \<open>The object the options page stores under the key \<^verbatim>\<open>settings\<close>.\<close>

record settings =
  defaultFolderId :: "string option"
  settings_chunkSize :: int

datatype effect =
    SessionOpen string string string string "string list"
  | ChunkPut string string string int int
  | SessionDelete string string
  | Delay int
  | UploadUpdated string upload

text \<open>
  \<open>others\<close> says which addresses hold a value that is no upload object, and which value;
  \<open>heap\<close> has the blank record there (see \<open>load_entries\<close>).
\<close>

record manager =
  heap :: "addr \<Rightarrow> upload"
  others :: "addr \<Rightarrow> other_value option"
  next_addr :: addr
  activeUploads :: "(map_key \<times> addr) list"
  stored_uploads :: snapshot
  stored_settings :: "settings option"
  effects :: "effect list"

subsection \<open>The insertion-ordered \<^verbatim>\<open>Map\<close>\<close>

text \<open>
  \<^verbatim>\<open>Map.prototype.set\<close> keeps the position of a key that is present and appends a new
  key; iteration and \<^verbatim>\<open>values()\<close> follow insertion order.
\<close>

fun map_get :: "('k \<times> 'v) list \<Rightarrow> 'k \<Rightarrow> 'v option" where
  "map_get [] k = None"
| "map_get ((k', v) # kvs) k = (if k' = k then Some v else map_get kvs k)"

fun map_set :: "'k \<Rightarrow> 'v \<Rightarrow> ('k \<times> 'v) list \<Rightarrow> ('k \<times> 'v) list" where
  "map_set k v [] = [(k, v)]"
| "map_set k v ((k', v') # kvs) = (if k' = k then (k, v) # kvs else (k', v') # map_set k v kvs)"

fun map_delete :: "'k \<Rightarrow> ('k \<times> 'v) list \<Rightarrow> ('k \<times> 'v) list" where
  "map_delete k [] = []"
| "map_delete k ((k', v') # kvs) = (if k' = k then kvs else (k', v') # map_delete k kvs)"

definition map_values :: "('k \<times> 'v) list \<Rightarrow> 'v list" where
  "map_values kvs = map snd kvs"

text \<open>Truthiness of a string-or-null value: \<^verbatim>\<open>null\<close> and the empty string are falsy.\<close>

fun truthy :: "string option \<Rightarrow> bool" where
  "truthy None = False"
| "truthy (Some s) = (s \<noteq> [])"

subsection \<open>Persistence\<close>

text \<open>What \<^verbatim>\<open>JSON.stringify\<close> writes for the value at an address.\<close>

definition stored_entry_of :: "manager \<Rightarrow> addr \<Rightarrow> stored_entry" where
  "stored_entry_of m a =
     (case others m a of None \<Rightarrow> UploadEntry (heap m a) | Some v \<Rightarrow> OtherEntry v)"

text \<open>
  \<^verbatim>\<open>savePersistedState\<close> serialises the values of the \<^verbatim>\<open>Map\<close> at the moment of the call.
\<close>

definition savePersistedState :: "manager \<Rightarrow> manager" where
  "savePersistedState m =
     m\<lparr>stored_uploads := Entries (map (stored_entry_of m) (map_values (activeUploads m)))\<rparr>"

text \<open>The record with every property blank.\<close>

definition blank_upload :: upload where
  "blank_upload =
     \<lparr>upload_id = [], ufile = \<lparr>f_name = [], f_size = 0, f_type = [], f_lastModified = 0\<rparr>,
      status = [], progress = 0, uploadedBytes = 0, chunkSize = 0, folderId = None,
      chunks = [], sessionUri = None, startTime = 0, endTime = None, error = None\<rparr>"

text \<open>
  The body of \<^verbatim>\<open>uploads.forEach\<close>: every parsed entry is a new value, entered under its
  own \<^verbatim>\<open>id\<close>. At a \<^verbatim>\<open>null\<close> entry the callback throws and the \<^verbatim>\<open>catch\<close> of
  \<^verbatim>\<open>loadPersistedState\<close> ends the loading with the entries read so far. A value that is
  no upload object is entered under the key \<^verbatim>\<open>undefined\<close>; the record at its address is
  the blank one, whose status is none of those the source compares with, as
  \<^verbatim>\<open>undefined\<close> is.
\<close>

fun load_entries :: "stored_entry list \<Rightarrow> manager \<Rightarrow> manager" where
  "load_entries [] m = m"
| "load_entries (NullEntry # es) m = m"
| "load_entries (UploadEntry u # es) m =
     load_entries es
       (m\<lparr>heap := (heap m)(next_addr m := u),
          others := (others m)(next_addr m := None),
          next_addr := Suc (next_addr m),
          activeUploads := map_set (Key (upload_id u)) (next_addr m) (activeUploads m)\<rparr>)"
| "load_entries (OtherEntry v # es) m =
     load_entries es
       (m\<lparr>heap := (heap m)(next_addr m := blank_upload),
          others := (others m)(next_addr m := Some v),
          next_addr := Suc (next_addr m),
          activeUploads := map_set Undefined (next_addr m) (activeUploads m)\<rparr>)"

text \<open>
  \<open>read_ok\<close> is False when the promise of \<^verbatim>\<open>storage.local.get\<close> is rejected. Every
  failure is caught and logged; the function has no other exit.
\<close>

definition loadPersistedState :: "bool \<Rightarrow> manager \<Rightarrow> manager" where
  "loadPersistedState read_ok m =
     (if \<not> read_ok then m
      else case stored_uploads m of
             NoUploads \<Rightarrow> m
           | BadJson \<Rightarrow> m
           | NotArray \<Rightarrow> m
           | Entries es \<Rightarrow> load_entries es m)"

text \<open>The loop of \<^verbatim>\<open>recoverInterruptedUploads\<close> over the entries of the \<^verbatim>\<open>Map\<close>.\<close>

fun recover_loop :: "(map_key \<times> addr) list \<Rightarrow> manager \<Rightarrow> manager" where
  "recover_loop [] m = m"
| "recover_loop ((k, a) # rest) m =
     recover_loop rest
       (if status (heap m a) = ''uploading'' \<or> status (heap m a) = ''paused''
        then m\<lparr>heap := (heap m)(a := (heap m a)\<lparr>status := ''interrupted''\<rparr>),
               activeUploads := map_set k a (activeUploads m)\<rparr>
        else m)"

definition recoverInterruptedUploads :: "manager \<Rightarrow> manager" where
  "recoverInterruptedUploads m = savePersistedState (recover_loop (activeUploads m) m)"

text \<open>The state the constructor sets up: an empty \<^verbatim>\<open>Map\<close>, over whatever is stored.\<close>

definition constructed :: "snapshot \<Rightarrow> settings option \<Rightarrow> manager" where
  "constructed snap sets =
     \<lparr>heap = (\<lambda>_. blank_upload), others = (\<lambda>_. None), next_addr = 0, activeUploads = [],
      stored_uploads = snap, stored_settings = sets, effects = []\<rparr>"

text \<open>
  \<^verbatim>\<open>initialize\<close>: load, then recover; the message handlers are installed after the
  synchronous part of the recovery, so no request is served before it.
\<close>

definition initialize :: "bool \<Rightarrow> manager \<Rightarrow> manager" where
  "initialize read_ok m = recoverInterruptedUploads (loadPersistedState read_ok m)"

subsection \<open>Messages to the user interface\<close>

definition sendUpdateToUI :: "string \<Rightarrow> manager \<Rightarrow> manager" where
  "sendUpdateToUI uploadId m =
     (case map_get (activeUploads m) (Key uploadId) of
        None \<Rightarrow> m
      | Some a \<Rightarrow> m\<lparr>effects := effects m @ [UploadUpdated uploadId (heap m a)]\<rparr>)"

subsection \<open>Pause\<close>

definition pauseUpload :: "string \<Rightarrow> manager \<Rightarrow> bool \<times> manager" where
  "pauseUpload uploadId m =
     (case map_get (activeUploads m) (Key uploadId) of
        None \<Rightarrow> (False, m)
      | Some a \<Rightarrow>
          if status (heap m a) = ''uploading''
          then (True,
                sendUpdateToUI uploadId
                  (savePersistedState
                     (m\<lparr>heap := (heap m)(a := (heap m a)\<lparr>status := ''paused''\<rparr>),
                        activeUploads := map_set (Key uploadId) a (activeUploads m)\<rparr>)))
          else (False, m))"

subsection \<open>Strings the source builds\<close>

definition digit_char :: "nat \<Rightarrow> char" where
  "digit_char d = ''0123456789'' ! d"

fun string_of_nat :: "nat \<Rightarrow> string" where
  "string_of_nat n =
     (if n < 10 then [digit_char n] else string_of_nat (n div 10) @ [digit_char (n mod 10)])"

declare string_of_nat.simps [simp del]

text \<open>A template literal prints an integer in decimal, with a minus sign below zero.\<close>

definition string_of_int :: "int \<Rightarrow> string" where
  "string_of_int i =
     (if i < 0 then CHR ''-'' # string_of_nat (nat (- i)) else string_of_nat (nat i))"

fun starts_with :: "string \<Rightarrow> string \<Rightarrow> bool" where
  "starts_with s [] = True"
| "starts_with [] (c # cs) = False"
| "starts_with (x # xs) (c # cs) = (x = c \<and> starts_with xs cs)"

text \<open>\<^verbatim>\<open>String.prototype.includes\<close>.\<close>

fun includes_str :: "string \<Rightarrow> string \<Rightarrow> bool" where
  "includes_str [] sub = (sub = [])"
| "includes_str (x # xs) sub = (starts_with (x # xs) sub \<or> includes_str xs sub)"

definition bearer :: "string \<Rightarrow> string" where
  "bearer tok = ''Bearer '' @ tok"

text \<open>A template literal prints \<^verbatim>\<open>null\<close> for a null token.\<close>

definition bearer_opt :: "string option \<Rightarrow> string" where
  "bearer_opt tok = ''Bearer '' @ (case tok of None \<Rightarrow> ''null'' | Some t \<Rightarrow> t)"

definition contentRange :: "int \<Rightarrow> int \<Rightarrow> int \<Rightarrow> string" where
  "contentRange startByte endByte fileSize =
     ''bytes '' @ string_of_int startByte @ ''-'' @ string_of_int (endByte - 1)
       @ ''/'' @ string_of_int fileSize"

subsection \<open>Cancel\<close>

text \<open>What a \<^verbatim>\<open>fetch\<close> ends with: a response with its status, or a rejected promise.\<close>

datatype fetch_result = Resp int | NetFail string

text \<open>
  \<open>tok\<close> is what \<^verbatim>\<open>getAuthToken\<close> resolves to (\<^verbatim>\<open>null\<close> on an error), \<open>del\<close> is the
  end of the \<^verbatim>\<open>DELETE\<close> request; a rejection is caught and logged. After the removal
  \<^verbatim>\<open>sendUpdateToUI\<close> no longer finds the entry.
\<close>

definition cancelUpload :: "string \<Rightarrow> string option \<Rightarrow> fetch_result \<Rightarrow> manager \<Rightarrow> bool \<times> manager" where
  "cancelUpload uploadId tok del m =
     (case map_get (activeUploads m) (Key uploadId) of
        None \<Rightarrow> (False, m)
      | Some a \<Rightarrow>
          let m1 = (case sessionUri (heap m a) of
                      None \<Rightarrow> m
                    | Some uri \<Rightarrow>
                        if uri = [] then m
                        else (case del of
                                Resp s \<Rightarrow> m\<lparr>effects := effects m @ [SessionDelete uri (bearer_opt tok)]\<rparr>
                              | NetFail msg \<Rightarrow> m\<lparr>effects := effects m @ [SessionDelete uri (bearer_opt tok)]\<rparr>));
              m2 = m1\<lparr>activeUploads := map_delete (Key uploadId) (activeUploads m1)\<rparr>
          in (True, sendUpdateToUI uploadId (savePersistedState m2)))"

subsection \<open>Handlers that run while a transfer is suspended\<close>

text \<open>
  While a transfer waits at an \<^verbatim>\<open>await\<close>, the message listener may serve a pause or a
  cancel request. Each changes the \<^verbatim>\<open>Map\<close> and the objects in one synchronous block
  (pause before its first \<^verbatim>\<open>await\<close>, cancel after its last one), so it is applied
  here in one step.
\<close>

datatype interference =
    PauseRequest string
  | CancelRequest string "string option" fetch_result

fun run_interference :: "interference list \<Rightarrow> manager \<Rightarrow> manager" where
  "run_interference [] m = m"
| "run_interference (PauseRequest uploadId # rest) m =
     run_interference rest (snd (pauseUpload uploadId m))"
| "run_interference (CancelRequest uploadId tok del # rest) m =
     run_interference rest (snd (cancelUpload uploadId tok del m))"

subsection \<open>One chunk\<close>

text \<open>
  One iteration of the loop of \<^verbatim>\<open>uploadChunks\<close> takes one \<open>chunk_event\<close>: the handlers
  served while the \<^verbatim>\<open>PUT\<close> is in flight, the end of the \<^verbatim>\<open>PUT\<close>, and the handlers served
  during the wait that follows it (the storage write of a periodic save, or the delay
  before a retry; an iteration without such a wait ignores the field).
\<close>

record chunk_event =
  during_fetch :: "interference list"
  response :: fetch_result
  during_wait :: "interference list"

text \<open>
  \<^verbatim>\<open>uploadChunk\<close>: the first component is the message of the error thrown, if any.
  The request is logged with the byte range of the slice it carries.
\<close>

definition uploadChunk ::
  "string \<Rightarrow> int \<Rightarrow> int \<Rightarrow> string \<Rightarrow> chunk_event \<Rightarrow> manager \<Rightarrow> string option \<times> manager" where
  "uploadChunk uploadId startByte endByte tok e m =
     (case map_get (activeUploads m) (Key uploadId) of
        None \<Rightarrow> (Some ''Upload session not found'', m)
      | Some b \<Rightarrow>
          if \<not> truthy (sessionUri (heap m b)) then (Some ''Upload session not found'', m)
          else
            let m1 = run_interference (during_fetch e)
                       (m\<lparr>effects := effects m @
                            [ChunkPut (the (sessionUri (heap m b))) (bearer tok)
                               (contentRange startByte endByte (f_size (ufile (heap m b))))
                               startByte endByte]\<rparr>)
            in (case response e of
                  NetFail msg \<Rightarrow> (Some msg, m1)
                | Resp s \<Rightarrow>
                    if s = 308 then (None, m1)
                    else if s = 200 \<or> s = 201 then (None, m1)
                    else (Some (''Upload failed with status: '' @ string_of_int s), m1)))"

subsection \<open>The chunk loop\<close>

text \<open>
  The \<^verbatim>\<open>file\<close> argument: \<^verbatim>\<open>null\<close> (what \<^verbatim>\<open>resumeUpload\<close> passes), a plain object
  with the four descriptive properties and no \<^verbatim>\<open>slice\<close> method (what a message from
  the popup carries), or a \<^verbatim>\<open>File\<close>. \<open>slice_error\<close> is the message of the
  \<^verbatim>\<open>TypeError\<close> that \<^verbatim>\<open>file.slice(startByte, endByte)\<close> throws on the first two.
\<close>

datatype file_arg = NullFile | PlainObject file_info | BlobFile file_info

fun slice_error :: "file_arg \<Rightarrow> string option" where
  "slice_error NullFile = Some ''Cannot read properties of null (reading 'slice')''"
| "slice_error (PlainObject i) = Some ''file.slice is not a function''"
| "slice_error (BlobFile i) = None"

text \<open>
  How a call has ended so far: it returned, it threw, or it is still suspended at an
  \<^verbatim>\<open>await\<close> whose result the given events do not contain.
\<close>

datatype outcome = Returned | Threw string | Pending

text \<open>
  The condition of the periodic save. \<^verbatim>\<open>x % 0\<close> is \<^verbatim>\<open>NaN\<close>, which is not \<^verbatim>\<open>=== 0\<close>.
\<close>

definition periodic :: "int \<Rightarrow> upload \<Rightarrow> bool" where
  "periodic endByte u =
     ((chunkSize u * 5 \<noteq> 0 \<and> endByte mod (chunkSize u * 5) = 0) \<or> endByte = f_size (ufile u))"

text \<open>The statements after a successful \<^verbatim>\<open>uploadChunk\<close>, up to the record update.\<close>

definition record_progress :: "string \<Rightarrow> addr \<Rightarrow> int \<Rightarrow> manager \<Rightarrow> manager" where
  "record_progress uploadId a endByte m =
     m\<lparr>heap := (heap m)(a := (heap m a)
              \<lparr>uploadedBytes := endByte,
               progress := (of_int endByte / of_int (f_size (ufile (heap m a)))) * 100\<rparr>),
       activeUploads := map_set (Key uploadId) a (activeUploads m)\<rparr>"

text \<open>The branch of the \<^verbatim>\<open>catch\<close> for a message that includes \<^verbatim>\<open>pause\<close>.\<close>

definition mark_paused :: "string \<Rightarrow> addr \<Rightarrow> manager \<Rightarrow> manager" where
  "mark_paused uploadId a m =
     m\<lparr>heap := (heap m)(a := (heap m a)\<lparr>status := ''paused''\<rparr>),
       activeUploads := map_set (Key uploadId) a (activeUploads m)\<rparr>"

text \<open>The condition of the \<^verbatim>\<open>while\<close> loop, on the object \<open>a\<close> held in \<^verbatim>\<open>upload\<close>.\<close>

definition loop_condition :: "addr \<Rightarrow> int \<Rightarrow> manager \<Rightarrow> bool" where
  "loop_condition a startByte m \<longleftrightarrow>
     startByte < f_size (ufile (heap m a)) \<and> status (heap m a) = ''uploading''"

text \<open>
  The body of the \<^verbatim>\<open>while\<close> loop of \<^verbatim>\<open>uploadChunks\<close>. The first component says how
  the body leaves the loop (\<open>None\<close>: it goes back to the condition), the second is the
  local \<^verbatim>\<open>startByte\<close> afterwards. \<^verbatim>\<open>file.slice\<close> stands before the \<^verbatim>\<open>try\<close>, so its
  \<^verbatim>\<open>TypeError\<close> leaves the function; every error of \<^verbatim>\<open>uploadChunk\<close> is caught.
\<close>

definition loop_body ::
  "string \<Rightarrow> addr \<Rightarrow> file_arg \<Rightarrow> string \<Rightarrow> int \<Rightarrow> chunk_event \<Rightarrow> manager
     \<Rightarrow> outcome option \<times> int \<times> manager" where
  "loop_body uploadId a f tok startByte e m =
     (case slice_error f of
        Some msg \<Rightarrow> (Some (Threw msg), startByte, m)
      | None \<Rightarrow>
          let endByte = min (startByte + chunkSize (heap m a)) (f_size (ufile (heap m a)))
          in (case uploadChunk uploadId startByte endByte tok e m of
                (None, m1) \<Rightarrow>
                  let m2 = record_progress uploadId a endByte m1
                  in if periodic endByte (heap m2 a)
                     then (None, endByte,
                           sendUpdateToUI uploadId
                             (run_interference (during_wait e) (savePersistedState m2)))
                     else (None, endByte, m2)
              | (Some msg, m1) \<Rightarrow>
                  if includes_str msg ''pause''
                  then (Some Returned, startByte,
                        sendUpdateToUI uploadId
                          (run_interference (during_wait e)
                             (savePersistedState (mark_paused uploadId a m1))))
                  else (None, startByte,
                        run_interference (during_wait e)
                          (m1\<lparr>effects := effects m1 @ [Delay 2000]\<rparr>))))"

text \<open>
  The loop, one event for each iteration. The result carries the local
  \<^verbatim>\<open>startByte\<close>. With no event left and the condition true, the loop is \<open>Pending\<close>
  (or has thrown at \<^verbatim>\<open>file.slice\<close>, which needs no event).
\<close>

fun uploadChunks_loop ::
  "string \<Rightarrow> addr \<Rightarrow> file_arg \<Rightarrow> string \<Rightarrow> int \<Rightarrow> chunk_event list \<Rightarrow> manager
     \<Rightarrow> outcome \<times> int \<times> manager" where
  "uploadChunks_loop uploadId a f tok startByte [] m =
     (if loop_condition a startByte m
      then (case slice_error f of
              Some msg \<Rightarrow> (Threw msg, startByte, m)
            | None \<Rightarrow> (Pending, startByte, m))
      else (Returned, startByte, m))"
| "uploadChunks_loop uploadId a f tok startByte (e # es) m =
     (if loop_condition a startByte m
      then (case loop_body uploadId a f tok startByte e m of
              (Some r, s', m') \<Rightarrow> (r, s', m')
            | (None, s', m') \<Rightarrow> uploadChunks_loop uploadId a f tok s' es m')
      else (Returned, startByte, m))"

definition uploadChunks ::
  "string \<Rightarrow> file_arg \<Rightarrow> string \<Rightarrow> chunk_event list \<Rightarrow> manager \<Rightarrow> outcome \<times> manager" where
  "uploadChunks uploadId f tok es m =
     (case map_get (activeUploads m) (Key uploadId) of
        None \<Rightarrow> (Returned, m)
      | Some a \<Rightarrow>
          if status (heap m a) = ''paused'' then (Returned, m)
          else (case uploadChunks_loop uploadId a f tok (uploadedBytes (heap m a)) es m of
                  (r, startByte, m') \<Rightarrow> (r, m')))"

subsection \<open>Opening the session and the whole transfer\<close>

text \<open>The end of the session-opening request: status, status text and \<^verbatim>\<open>Location\<close>
  header of the response, or a rejected promise.\<close>

datatype init_result = InitResponse int string "string option" | InitRejected string

definition initResumableUpload ::
  "upload \<Rightarrow> string \<Rightarrow> init_result \<Rightarrow> manager \<Rightarrow> (string + string option) \<times> manager" where
  "initResumableUpload u tok ini m =
     (let m1 = m\<lparr>effects := effects m @
                  [SessionOpen (bearer tok) (f_type (ufile u)) (string_of_int (f_size (ufile u)))
                     (f_name (ufile u))
                     (case folderId u of
                        None \<Rightarrow> []
                      | Some fid \<Rightarrow> if fid = [] then [] else [fid])]\<rparr>
      in case ini of
           InitRejected msg \<Rightarrow> (Inl msg, m1)
         | InitResponse st txt loc \<Rightarrow>
             if 200 \<le> st \<and> st \<le> 299 then (Inr loc, m1)
             else (Inl (''Failed to initialize upload: '' @ txt), m1))"

text \<open>What the awaits of \<^verbatim>\<open>processUpload\<close> receive, and the handlers served meanwhile.\<close>

record process_env =
  env_token :: "string option"
  env_during_token :: "interference list"
  env_init :: init_result
  env_during_init :: "interference list"
  env_during_save :: "interference list"
  env_events :: "chunk_event list"
  env_now :: int

text \<open>The block guarded by \<^verbatim>\<open>if (!upload.sessionUri)\<close>.\<close>

definition open_session ::
  "string \<Rightarrow> addr \<Rightarrow> string \<Rightarrow> process_env \<Rightarrow> manager \<Rightarrow> string option \<times> manager" where
  "open_session uploadId a tok env m =
     (case initResumableUpload (heap m a) tok (env_init env) m of
        (Inl msg, m1) \<Rightarrow> (Some msg, run_interference (env_during_init env) m1)
      | (Inr loc, m1) \<Rightarrow>
          let m2 = run_interference (env_during_init env) m1;
              m3 = m2\<lparr>heap := (heap m2)(a := (heap m2 a)\<lparr>sessionUri := loc, status := ''uploading''\<rparr>),
                      activeUploads := map_set (Key uploadId) a (activeUploads m2)\<rparr>
          in (None, run_interference (env_during_save env) (savePersistedState m3)))"

definition mark_completed :: "string \<Rightarrow> addr \<Rightarrow> int \<Rightarrow> manager \<Rightarrow> manager" where
  "mark_completed uploadId a now m =
     sendUpdateToUI uploadId
       (savePersistedState
          (m\<lparr>heap := (heap m)(a := (heap m a)\<lparr>status := ''completed'', endTime := Some now\<rparr>),
             activeUploads := map_set (Key uploadId) a (activeUploads m)\<rparr>))"

definition mark_error :: "string \<Rightarrow> addr \<Rightarrow> string \<Rightarrow> manager \<Rightarrow> manager" where
  "mark_error uploadId a msg m =
     sendUpdateToUI uploadId
       (savePersistedState
          (m\<lparr>heap := (heap m)(a := (heap m a)\<lparr>status := ''error'', error := Some msg\<rparr>),
             activeUploads := map_set (Key uploadId) a (activeUploads m)\<rparr>))"

text \<open>The \<^verbatim>\<open>try\<close> block of \<^verbatim>\<open>processUpload\<close>.\<close>

definition processUpload_try ::
  "string \<Rightarrow> addr \<Rightarrow> file_arg \<Rightarrow> process_env \<Rightarrow> manager \<Rightarrow> outcome \<times> manager" where
  "processUpload_try uploadId a f env m =
     (let m1 = run_interference (env_during_token env) m
      in if \<not> truthy (env_token env) then (Threw ''Authentication required'', m1)
         else
           (case (if \<not> truthy (sessionUri (heap m1 a))
                  then open_session uploadId a (the (env_token env)) env m1
                  else (None, m1)) of
              (Some msg, m2) \<Rightarrow> (Threw msg, m2)
            | (None, m2) \<Rightarrow>
                (case uploadChunks uploadId f (the (env_token env)) (env_events env) m2 of
                   (Returned, m3) \<Rightarrow>
                     if uploadedBytes (heap m3 a) \<ge> f_size (ufile (heap m3 a))
                     then (Returned, mark_completed uploadId a (env_now env) m3)
                     else (Returned, m3)
                 | (Threw msg, m3) \<Rightarrow> (Threw msg, m3)
                 | (Pending, m3) \<Rightarrow> (Pending, m3))))"

definition processUpload ::
  "string \<Rightarrow> file_arg \<Rightarrow> process_env \<Rightarrow> manager \<Rightarrow> outcome \<times> manager" where
  "processUpload uploadId f env m =
     (case map_get (activeUploads m) (Key uploadId) of
        None \<Rightarrow> (Returned, m)
      | Some a \<Rightarrow>
          (case processUpload_try uploadId a f env m of
             (Threw msg, m') \<Rightarrow> (Returned, mark_error uploadId a msg m')
           | (Returned, m') \<Rightarrow> (Returned, m')
           | (Pending, m') \<Rightarrow> (Pending, m')))"

subsection \<open>Start and resume\<close>

fun info_of :: "file_arg \<Rightarrow> file_info option" where
  "info_of NullFile = None"
| "info_of (PlainObject i) = Some i"
| "info_of (BlobFile i) = Some i"

definition new_upload :: "string \<Rightarrow> file_info \<Rightarrow> string option \<Rightarrow> int \<Rightarrow> upload" where
  "new_upload uploadId i folder now =
     \<lparr>upload_id = uploadId,
      ufile = \<lparr>f_name = f_name i, f_size = f_size i, f_type = f_type i,
               f_lastModified = f_lastModified i\<rparr>,
      status = ''initializing'',
      progress = 0,
      uploadedBytes = 0,
      chunkSize = 5 * 1024 * 1024,
      folderId = folder,
      chunks = [],
      sessionUri = None,
      startTime = now,
      endTime = None,
      error = None\<rparr>"

text \<open>
  \<^verbatim>\<open>startUpload\<close> up to the call of \<^verbatim>\<open>processUpload\<close>. \<open>uploadId\<close> is what
  \<^verbatim>\<open>generateUploadId\<close> produced and \<open>now\<close> the value of \<^verbatim>\<open>Date.now()\<close>. The object
  literal has no \<^verbatim>\<open>endTime\<close>. Reading \<^verbatim>\<open>file.name\<close> of \<^verbatim>\<open>null\<close> throws before anything
  is changed.
\<close>

definition startUpload ::
  "string \<Rightarrow> int \<Rightarrow> file_arg \<Rightarrow> string option \<Rightarrow> manager \<Rightarrow> (string + string) \<times> manager" where
  "startUpload uploadId now f folder m =
     (case info_of f of
        None \<Rightarrow> (Inl ''Cannot read properties of null (reading 'name')'', m)
      | Some i \<Rightarrow>
          (Inr uploadId,
           savePersistedState
             (m\<lparr>heap := (heap m)(next_addr m := new_upload uploadId i folder now),
                others := (others m)(next_addr m := None),
                next_addr := Suc (next_addr m),
                activeUploads := map_set (Key uploadId) (next_addr m) (activeUploads m)\<rparr>)))"

text \<open>\<^verbatim>\<open>startUpload\<close> together with the transfer it starts and does not await.\<close>

definition startUpload_run ::
  "string \<Rightarrow> int \<Rightarrow> file_arg \<Rightarrow> string option \<Rightarrow> process_env \<Rightarrow> manager
     \<Rightarrow> (string + string) \<times> outcome \<times> manager" where
  "startUpload_run uploadId now f folder env m =
     (case startUpload uploadId now f folder m of
        (Inl msg, m1) \<Rightarrow> (Inl msg, Returned, m1)
      | (Inr uid, m1) \<Rightarrow> (Inr uid, processUpload uid f env m1))"

text \<open>\<^verbatim>\<open>resumeUpload\<close> up to the call of \<^verbatim>\<open>processUpload\<close>.\<close>

definition resumeUpload :: "string \<Rightarrow> manager \<Rightarrow> bool \<times> manager" where
  "resumeUpload uploadId m =
     (case map_get (activeUploads m) (Key uploadId) of
        None \<Rightarrow> (False, m)
      | Some a \<Rightarrow>
          if status (heap m a) = ''paused'' \<or> status (heap m a) = ''interrupted''
          then (True,
                sendUpdateToUI uploadId
                  (savePersistedState
                     (m\<lparr>heap := (heap m)(a := (heap m a)\<lparr>status := ''uploading''\<rparr>),
                        activeUploads := map_set (Key uploadId) a (activeUploads m)\<rparr>)))
          else (False, m))"

text \<open>
  \<^verbatim>\<open>resumeUpload\<close> together with the transfer it starts: the source calls
  \<^verbatim>\<open>this.processUpload(uploadId, null)\<close>.
\<close>

definition resumeUpload_run ::
  "string \<Rightarrow> process_env \<Rightarrow> manager \<Rightarrow> bool \<times> outcome \<times> manager" where
  "resumeUpload_run uploadId env m =
     (case resumeUpload uploadId m of
        (False, m1) \<Rightarrow> (False, Returned, m1)
      | (True, m1) \<Rightarrow> (True, processUpload uploadId NullFile env m1))"

subsection \<open>The list of uploads and the settings\<close>

text \<open>
  The \<^verbatim>\<open>getUploads\<close> case of the message listener hands
  \<^verbatim>\<open>Array.from(this.activeUploads.values())\<close> to \<^verbatim>\<open>sendResponse\<close> and keeps it nowhere:
  a new array whose elements are the values of the \<^verbatim>\<open>Map\<close> themselves, here their
  addresses, in the order of insertion.
\<close>

definition getUploads :: "manager \<Rightarrow> addr list" where
  "getUploads m = map_values (activeUploads m)"

text \<open>
  \<^verbatim>\<open>saveSettings\<close> of the options page writes the key \<^verbatim>\<open>settings\<close> of the same storage
  area; \<open>folder\<close> is the trimmed input (or \<^verbatim>\<open>null\<close>) and \<open>size_choice\<close> the parsed
  selection.
\<close>

definition saveSettings :: "string option \<Rightarrow> int \<Rightarrow> manager \<Rightarrow> manager" where
  "saveSettings folder size_choice m =
     m\<lparr>stored_settings := Some \<lparr>defaultFolderId = folder, settings_chunkSize = size_choice\<rparr>\<rparr>"

subsection \<open>A state to compute with\<close>

text \<open>
  One upload of a file of 12 MiB in chunks of 5 MiB, with an open session, entered
  under the id \<open>u1\<close>.
\<close>

definition example_info :: file_info where
  "example_info =
     \<lparr>f_name = ''data.bin'', f_size = 12582912, f_type = ''application/octet-stream'',
      f_lastModified = 0\<rparr>"

definition example_upload :: upload where
  "example_upload =
     \<lparr>upload_id = ''u1'', ufile = example_info,
      status = ''uploading'', progress = 0, uploadedBytes = 0, chunkSize = 5242880,
      folderId = None, chunks = [], sessionUri = Some ''https://session/1'', startTime = 0,
      endTime = None, error = None\<rparr>"

definition example_manager :: manager where
  "example_manager =
     \<lparr>heap = (\<lambda>_. blank_upload)(0 := example_upload), others = (\<lambda>_. None), next_addr = 1,
      activeUploads = [(Key ''u1'', 0)], stored_uploads = NoUploads, stored_settings = None,
      effects = []\<rparr>"

subsection \<open>Notions used in the statements\<close>

text \<open>The bounds of the byte counter of a record.\<close>

definition bytes_ok :: "upload \<Rightarrow> bool" where
  "bytes_ok u \<longleftrightarrow> 0 \<le> uploadedBytes u \<and> uploadedBytes u \<le> f_size (ufile u)"

text \<open>
  A later value \<open>u'\<close> of a record \<open>u\<close>: the same file and chunk size, and a byte counter
  that has not decreased and stays within the file.
\<close>

definition bytes_step :: "upload \<Rightarrow> upload \<Rightarrow> bool" where
  "bytes_step u u' \<longleftrightarrow>
     ufile u' = ufile u \<and> chunkSize u' = chunkSize u
     \<and> uploadedBytes u \<le> uploadedBytes u' \<and> uploadedBytes u' \<le> f_size (ufile u')"

text \<open>Two values of a record with the same file, chunk size and byte counter.\<close>

definition same_bytes :: "upload \<Rightarrow> upload \<Rightarrow> bool" where
  "same_bytes u u' \<longleftrightarrow>
     ufile u' = ufile u \<and> chunkSize u' = chunkSize u \<and> uploadedBytes u' = uploadedBytes u"

text \<open>
  The part of the \<^verbatim>\<open>try\<close> block of \<^verbatim>\<open>processUpload\<close> between the token and the call of
  \<^verbatim>\<open>uploadChunks\<close>, for a truthy token: the state in which the chunk loop starts, or the
  message of the error thrown.
\<close>

definition session_prefix ::
  "string \<Rightarrow> addr \<Rightarrow> process_env \<Rightarrow> manager \<Rightarrow> string option \<times> manager" where
  "session_prefix uploadId a env m =
     (let m1 = run_interference (env_during_token env) m
      in if \<not> truthy (sessionUri (heap m1 a))
         then open_session uploadId a (the (env_token env)) env m1
         else (None, m1))"

text \<open>An event with no handler served, and a run of three chunks that the server accepts.\<close>

definition plain_event :: "fetch_result \<Rightarrow> chunk_event" where
  "plain_event r = \<lparr>during_fetch = [], response = r, during_wait = []\<rparr>"

definition example_env :: process_env where
  "example_env =
     \<lparr>env_token = Some ''tok'', env_during_token = [],
      env_init = InitResponse 200 ''OK'' (Some ''https://session/1''),
      env_during_init = [], env_during_save = [],
      env_events = [plain_event (Resp 308), plain_event (Resp 308), plain_event (Resp 200)],
      env_now = 1000\<rparr>"

subsection \<open>The message listener\<close>

text \<open>
  The requests the listener of \<^verbatim>\<open>setupMessageHandlers\<close> dispatches on. A start request
  comes with what \<^verbatim>\<open>generateUploadId\<close> and \<^verbatim>\<open>Date.now\<close> will return; a request that
  starts a transfer comes with what the awaits of that transfer will receive.
\<close>

datatype request =
    GetUploads
  | StartUpload string int file_arg "string option" process_env
  | PauseUpload string
  | ResumeUpload string process_env
  | CancelUpload string "string option" fetch_result

text \<open>The state after a request has been served and the transfer it started has run.\<close>

fun serve :: "request \<Rightarrow> manager \<Rightarrow> manager" where
  "serve GetUploads m = m"
| "serve (StartUpload uploadId now f folder env) m =
     snd (snd (startUpload_run uploadId now f folder env m))"
| "serve (PauseUpload uploadId) m = snd (pauseUpload uploadId m)"
| "serve (ResumeUpload uploadId env) m = snd (snd (resumeUpload_run uploadId env m))"
| "serve (CancelUpload uploadId tok del) m = snd (cancelUpload uploadId tok del m)"

fun serve_all :: "request list \<Rightarrow> manager \<Rightarrow> manager" where
  "serve_all [] m = m"
| "serve_all (r # rs) m = serve_all rs (serve r m)"

text \<open>A request to resume the upload \<open>k\<close>, or a start request whose new id is \<open>k\<close> again.\<close>

fun resumes_or_reuses :: "string \<Rightarrow> request \<Rightarrow> bool" where
  "resumes_or_reuses k (ResumeUpload uploadId env) = (uploadId = k)"
| "resumes_or_reuses k (StartUpload uploadId now f folder env) = (uploadId = k)"
| "resumes_or_reuses k r = False"

text \<open>
  The \<^verbatim>\<open>Map\<close> as the source builds it: no id twice, no object under two ids, and every
  object below the next free address.
\<close>

definition wf_registry :: "manager \<Rightarrow> bool" where
  "wf_registry m \<longleftrightarrow>
     distinct (map fst (activeUploads m)) \<and> distinct (map snd (activeUploads m))
     \<and> (\<forall>a \<in> set (map snd (activeUploads m)). a < next_addr m)"

text \<open>
  The object \<open>a\<close> is interrupted, and the \<^verbatim>\<open>Map\<close> holds it under the id \<open>k\<close> or not at
  all, and holds nothing else under \<open>k\<close>.
\<close>

definition interrupted_at :: "string \<Rightarrow> addr \<Rightarrow> manager \<Rightarrow> bool" where
  "interrupted_at k a m \<longleftrightarrow>
     a < next_addr m \<and> status (heap m a) = ''interrupted''
     \<and> (\<forall>p \<in> set (activeUploads m). (snd p = a) = (fst p = Key k))"

subsection \<open>Reading the log\<close>

text \<open>The byte ranges of the chunk requests in a log, in the order they were sent.\<close>

fun sent_ranges :: "effect list \<Rightarrow> (int \<times> int) list" where
  "sent_ranges [] = []"
| "sent_ranges (ChunkPut uri auth hdr startByte endByte # rest) =
     (startByte, endByte) # sent_ranges rest"
| "sent_ranges (x # rest) = sent_ranges rest"

text \<open>The session-delete requests in a log.\<close>

fun delete_requests :: "effect list \<Rightarrow> (string \<times> string) list" where
  "delete_requests [] = []"
| "delete_requests (SessionDelete uri auth # rest) = (uri, auth) # delete_requests rest"
| "delete_requests (x # rest) = delete_requests rest"

text \<open>
  The example upload after its first chunk, paused: 5 MiB of 12 MiB are acknowledged.
\<close>

definition paused_manager :: manager where
  "paused_manager =
     example_manager\<lparr>heap := (heap example_manager)
       (0 := example_upload\<lparr>status := ''paused'', uploadedBytes := 5242880\<rparr>)\<rparr>"



text \<open>The \<^verbatim>\<open>Content-Range\<close> headers of the chunk requests in a log.\<close>

fun sent_headers :: "effect list \<Rightarrow> string list" where
  "sent_headers [] = []"
| "sent_headers (ChunkPut uri auth hdr startByte endByte # rest) = hdr # sent_headers rest"
| "sent_headers (x # rest) = sent_headers rest"

text \<open>
  The ranges that the specification describes for a transfer that starts at the offset
  \<open>s\<close>: each begins where the one before has ended, each but the last has the length
  \<open>step\<close>, and the last ends at the size of the file.
\<close>

function chunk_ranges :: "int \<Rightarrow> int \<Rightarrow> int \<Rightarrow> (int \<times> int) list" where
  "chunk_ranges step fileSize s =
     (if 0 < step \<and> s < fileSize
      then (s, min (s + step) fileSize) # chunk_ranges step fileSize (min (s + step) fileSize)
      else [])"
  by pat_completeness auto
termination
  by (relation "measure (\<lambda>(step, fileSize, s). nat (fileSize - s))") auto

declare chunk_ranges.simps [simp del]

text \<open>
  Ranges \<open>[start, end)\<close> that are not empty and follow one another without a gap or an
  overlap, from \<open>s\<close> to \<open>t\<close>.
\<close>

fun contiguous :: "int \<Rightarrow> (int \<times> int) list \<Rightarrow> int \<Rightarrow> bool" where
  "contiguous s [] t = (s = t)"
| "contiguous s ((a, b) # rs) t = (a = s \<and> a < b \<and> contiguous b rs t)"

text \<open>
  The \<^verbatim>\<open>Map\<close> has no key twice and holds under the id \<open>k\<close> the object \<open>a\<close> or nothing.
\<close>

definition held :: "string \<Rightarrow> addr \<Rightarrow> manager \<Rightarrow> bool" where
  "held k a m \<longleftrightarrow>
     distinct (map fst (activeUploads m))
     \<and> (map_get (activeUploads m) (Key k) = Some a \<or> map_get (activeUploads m) (Key k) = None)"

text \<open>The delays in a log, in milliseconds.\<close>

fun delays :: "effect list \<Rightarrow> int list" where
  "delays [] = []"
| "delays (Delay ms # rest) = ms # delays rest"
| "delays (x # rest) = delays rest"






text \<open>The \<^verbatim>\<open>Map\<close> holds the object \<open>a\<close> under the id \<open>k\<close> and under no other key.\<close>

definition owns :: "string \<Rightarrow> addr \<Rightarrow> manager \<Rightarrow> bool" where
  "owns k a m \<longleftrightarrow>
     map_get (activeUploads m) (Key k) = Some a
     \<and> (\<forall>p \<in> set (activeUploads m). snd p = a \<longrightarrow> fst p = Key k)"

text \<open>The \<^verbatim>\<open>Map\<close> holds neither the id \<open>k\<close> nor the object \<open>a\<close>.\<close>

definition removed :: "string \<Rightarrow> addr \<Rightarrow> manager \<Rightarrow> bool" where
  "removed k a m \<longleftrightarrow> (\<forall>p \<in> set (activeUploads m). fst p \<noteq> Key k \<and> snd p \<noteq> a)"

text \<open>The state with other settings stored.\<close>

definition with_settings :: "settings option \<Rightarrow> manager \<Rightarrow> manager" where
  "with_settings st m = m\<lparr>stored_settings := st\<rparr>"

section \<open>Properties\<close>

subsection \<open>The \<^verbatim>\<open>Map\<close> operations\<close>

lemma map_get_map_set: "map_get (map_set k v kvs) k' = (if k' = k then Some v else map_get kvs k')"
  by (induction kvs) auto

lemma map_set_same: "map_get kvs k = Some v \<Longrightarrow> map_set k v kvs = kvs"
  by (induction kvs) (auto split: if_splits)


lemma map_get_in_set: "map_get kvs k = Some v \<Longrightarrow> (k, v) \<in> set kvs"
  by (induction kvs) (auto split: if_splits)

lemma map_get_None_iff: "map_get kvs k = None \<longleftrightarrow> k \<notin> set (map fst kvs)"
  by (induction kvs) (fastforce split: if_splits)+

lemma map_get_distinct: "distinct (map fst kvs) \<Longrightarrow> (k, v) \<in> set kvs \<Longrightarrow> map_get kvs k = Some v"
proof (induction kvs)
  case Nil
  then show ?case by simp
next
  case (Cons p kvs)
  obtain k' v' where p: "p = (k', v')" by (cases p)
  show ?case
  proof (cases "k' = k")
    case True
    with Cons.prems p have "(k, v) \<notin> set kvs"
      by (metis distinct.simps(2) fst_conv image_eqI list.simps(9) set_map)
    with Cons.prems p True show ?thesis by simp
  next
    case False
    with Cons p show ?thesis by simp
  qed
qed

lemma set_map_delete: "set (map_delete k kvs) \<subseteq> set kvs"
  by (induction kvs) (auto split: if_splits)

lemma keys_map_set:
  "map fst (map_set k v kvs) = (if k \<in> set (map fst kvs) then map fst kvs else map fst kvs @ [k])"
  by (induction kvs) (fastforce split: if_splits)+


lemma set_map_set: "set (map_set k v kvs) \<subseteq> insert (k, v) (set kvs)"
  by (induction kvs) (auto split: if_splits)

lemma distinct_fst_map_set: "distinct (map fst kvs) \<Longrightarrow> distinct (map fst (map_set k v kvs))"
  by (simp add: keys_map_set)



lemma stored_entry_of_cong:
  "heap m' = heap m \<Longrightarrow> others m' = others m \<Longrightarrow> stored_entry_of m' = stored_entry_of m"
  by (rule ext) (simp add: stored_entry_of_def split: option.splits)

lemma savePersistedState_proj [simp]:
  "heap (savePersistedState m) = heap m"
  "others (savePersistedState m) = others m"
  "next_addr (savePersistedState m) = next_addr m"
  "activeUploads (savePersistedState m) = activeUploads m"
  "stored_settings (savePersistedState m) = stored_settings m"
  "effects (savePersistedState m) = effects m"
  by (simp_all add: savePersistedState_def)

lemma stored_savePersistedState:
  "stored_uploads (savePersistedState m)
     = Entries (map (stored_entry_of m) (map_values (activeUploads m)))"
  by (simp add: savePersistedState_def)

lemma stored_entry_of_save [simp]: "stored_entry_of (savePersistedState m) = stored_entry_of m"
  by (rule stored_entry_of_cong) simp_all

lemma sendUpdateToUI_proj [simp]:
  "heap (sendUpdateToUI k m) = heap m"
  "others (sendUpdateToUI k m) = others m"
  "next_addr (sendUpdateToUI k m) = next_addr m"
  "activeUploads (sendUpdateToUI k m) = activeUploads m"
  "stored_uploads (sendUpdateToUI k m) = stored_uploads m"
  "stored_settings (sendUpdateToUI k m) = stored_settings m"
  by (simp_all add: sendUpdateToUI_def split: option.splits)

subsection \<open>What the handlers leave unchanged\<close>

lemma pauseUpload_fields [simp]:
  "uploadedBytes (heap (snd (pauseUpload k m)) b) = uploadedBytes (heap m b)"
  "ufile (heap (snd (pauseUpload k m)) b) = ufile (heap m b)"
  "chunkSize (heap (snd (pauseUpload k m)) b) = chunkSize (heap m b)"
  "sessionUri (heap (snd (pauseUpload k m)) b) = sessionUri (heap m b)"
  "upload_id (heap (snd (pauseUpload k m)) b) = upload_id (heap m b)"
  "next_addr (snd (pauseUpload k m)) = next_addr m"
  "stored_settings (snd (pauseUpload k m)) = stored_settings m"
  "activeUploads (snd (pauseUpload k m)) = activeUploads m"
  by (simp_all add: pauseUpload_def map_set_same split: option.splits)

lemma pauseUpload_status:
  "status (heap (snd (pauseUpload k m)) b) = status (heap m b)
   \<or> (status (heap m b) = ''uploading'' \<and> status (heap (snd (pauseUpload k m)) b) = ''paused'')"
  by (simp add: pauseUpload_def split: option.splits)

lemma cancelUpload_fields [simp]:
  "heap (snd (cancelUpload k tok del m)) = heap m"
  "next_addr (snd (cancelUpload k tok del m)) = next_addr m"
  "stored_settings (snd (cancelUpload k tok del m)) = stored_settings m"
  by (simp_all add: cancelUpload_def Let_def split: option.splits fetch_result.splits)

lemma cancelUpload_registry:
  "activeUploads (snd (cancelUpload k tok del m)) =
     (if map_get (activeUploads m) (Key k) = None then activeUploads m
      else map_delete (Key k) (activeUploads m))"
  by (simp add: cancelUpload_def Let_def split: option.splits fetch_result.splits)

lemma run_interference_fields [simp]:
  "uploadedBytes (heap (run_interference xs m) b) = uploadedBytes (heap m b)"
  "ufile (heap (run_interference xs m) b) = ufile (heap m b)"
  "chunkSize (heap (run_interference xs m) b) = chunkSize (heap m b)"
  "sessionUri (heap (run_interference xs m) b) = sessionUri (heap m b)"
  "upload_id (heap (run_interference xs m) b) = upload_id (heap m b)"
  "next_addr (run_interference xs m) = next_addr m"
  "stored_settings (run_interference xs m) = stored_settings m"
  by (induction xs m rule: run_interference.induct) simp_all

lemma run_interference_status:
  "status (heap (run_interference xs m) b) = status (heap m b)
   \<or> (status (heap m b) = ''uploading'' \<and> status (heap (run_interference xs m) b) = ''paused'')"
proof (induction xs m rule: run_interference.induct)
  case (1 m)
  then show ?case by simp
next
  case (2 uploadId rest m)
  with pauseUpload_status [of uploadId m b] show ?case by auto
next
  case (3 uploadId tok del rest m)
  then show ?case by simp
qed

lemma run_interference_registry:
  "set (activeUploads (run_interference xs m)) \<subseteq> set (activeUploads m)"
proof (induction xs m rule: run_interference.induct)
  case (1 m)
  then show ?case by simp
next
  case (2 uploadId rest m)
  then show ?case by simp
next
  case (3 uploadId tok del rest m)
  then show ?case using set_map_delete [of "Key uploadId" "activeUploads m"]
    by (auto simp: cancelUpload_registry split: if_splits)
qed

subsection \<open>The chunk loop: what one iteration leaves unchanged\<close>

lemma uploadChunk_fields [simp]:
  "uploadedBytes (heap (snd (uploadChunk k s e tok ev m)) b) = uploadedBytes (heap m b)"
  "ufile (heap (snd (uploadChunk k s e tok ev m)) b) = ufile (heap m b)"
  "chunkSize (heap (snd (uploadChunk k s e tok ev m)) b) = chunkSize (heap m b)"
  "sessionUri (heap (snd (uploadChunk k s e tok ev m)) b) = sessionUri (heap m b)"
  "upload_id (heap (snd (uploadChunk k s e tok ev m)) b) = upload_id (heap m b)"
  "next_addr (snd (uploadChunk k s e tok ev m)) = next_addr m"
  "stored_settings (snd (uploadChunk k s e tok ev m)) = stored_settings m"
  by (simp_all add: uploadChunk_def Let_def split: option.splits fetch_result.splits)

lemma record_progress_fields [simp]:
  "uploadedBytes (heap (record_progress k a e m) b) = (if b = a then e else uploadedBytes (heap m b))"
  "ufile (heap (record_progress k a e m) b) = ufile (heap m b)"
  "chunkSize (heap (record_progress k a e m) b) = chunkSize (heap m b)"
  "sessionUri (heap (record_progress k a e m) b) = sessionUri (heap m b)"
  "upload_id (heap (record_progress k a e m) b) = upload_id (heap m b)"
  "status (heap (record_progress k a e m) b) = status (heap m b)"
  "next_addr (record_progress k a e m) = next_addr m"
  "stored_settings (record_progress k a e m) = stored_settings m"
  "effects (record_progress k a e m) = effects m"
  by (simp_all add: record_progress_def)

lemma mark_paused_fields [simp]:
  "uploadedBytes (heap (mark_paused k a m) b) = uploadedBytes (heap m b)"
  "ufile (heap (mark_paused k a m) b) = ufile (heap m b)"
  "chunkSize (heap (mark_paused k a m) b) = chunkSize (heap m b)"
  "sessionUri (heap (mark_paused k a m) b) = sessionUri (heap m b)"
  "upload_id (heap (mark_paused k a m) b) = upload_id (heap m b)"
  "next_addr (mark_paused k a m) = next_addr m"
  "stored_settings (mark_paused k a m) = stored_settings m"
  "effects (mark_paused k a m) = effects m"
  by (simp_all add: mark_paused_def)

text \<open>An invariant of the loop body is an invariant of the loop.\<close>

lemma loop_invariant:
  assumes "I startByte m"
    and "\<And>s m e x s' m'. I s m \<Longrightarrow> loop_condition a s m \<Longrightarrow>
            loop_body k a f tok s e m = (x, s', m') \<Longrightarrow> I s' m'"
  shows "I (fst (snd (uploadChunks_loop k a f tok startByte es m)))
           (snd (snd (uploadChunks_loop k a f tok startByte es m)))"
  using assms(1)
proof (induction es arbitrary: startByte m)
  case Nil
  then show ?case by (simp split: option.splits)
next
  case (Cons e es)
  show ?case
  proof (cases "loop_condition a startByte m")
    case False
    with Cons.prems show ?thesis by simp
  next
    case True
    obtain x s' m' where b: "loop_body k a f tok startByte e m = (x, s', m')"
      by (cases "loop_body k a f tok startByte e m")
    from assms(2) [OF Cons.prems True b] have i: "I s' m'" .
    show ?thesis
    proof (cases x)
      case None
      with True b Cons.IH [OF i] show ?thesis by simp
    next
      case (Some r)
      with True b i show ?thesis by simp
    qed
  qed
qed

lemma loop_body_fields:
  assumes "loop_body k a f tok s e m = (x, s', m')"
  shows "ufile (heap m' b) = ufile (heap m b)"
    and "chunkSize (heap m' b) = chunkSize (heap m b)"
    and "sessionUri (heap m' b) = sessionUri (heap m b)"
    and "upload_id (heap m' b) = upload_id (heap m b)"
    and "next_addr m' = next_addr m"
    and "stored_settings m' = stored_settings m"
    and "b \<noteq> a \<Longrightarrow> uploadedBytes (heap m' b) = uploadedBytes (heap m b)"
  using assms
  by (auto simp: loop_body_def Let_def case_prod_beta split: option.splits if_splits)

subsection \<open>The byte counter in the chunk loop\<close>

lemma bytes_step_refl: "bytes_ok u \<Longrightarrow> bytes_step u u"
  by (simp add: bytes_ok_def bytes_step_def)

lemma bytes_step_trans: "bytes_step u v \<Longrightarrow> bytes_step v w \<Longrightarrow> bytes_step u w"
  by (auto simp: bytes_step_def)

lemma bytes_step_ok: "bytes_ok u \<Longrightarrow> bytes_step u v \<Longrightarrow> bytes_ok v"
  by (auto simp: bytes_ok_def bytes_step_def)

lemma bytes_step_same:
  "bytes_ok u \<Longrightarrow> ufile v = ufile u \<Longrightarrow> chunkSize v = chunkSize u \<Longrightarrow>
   uploadedBytes v = uploadedBytes u \<Longrightarrow> bytes_step u v"
  by (simp add: bytes_ok_def bytes_step_def)

lemma loop_body_slice_error:
  "slice_error f = Some msg \<Longrightarrow> loop_body k a f tok s e m = (Some (Threw msg), s, m)"
  by (simp add: loop_body_def)

text \<open>The four ways through the loop body.\<close>

lemma loop_body_cases:
  assumes "loop_body k a f tok s e m = (x, s', m')"
  obtains
    (thrown) msg where "slice_error f = Some msg" "x = Some (Threw msg)" "s' = s" "m' = m"
  | (advance) m1 m2 where "slice_error f = None"
      "uploadChunk k s (min (s + chunkSize (heap m a)) (f_size (ufile (heap m a)))) tok e m = (None, m1)"
      "m2 = record_progress k a (min (s + chunkSize (heap m a)) (f_size (ufile (heap m a)))) m1"
      "x = None" "s' = min (s + chunkSize (heap m a)) (f_size (ufile (heap m a)))"
      "m' = m2 \<or> m' = sendUpdateToUI k (run_interference (during_wait e) (savePersistedState m2))"
  | (paused) msg m1 where "slice_error f = None"
      "uploadChunk k s (min (s + chunkSize (heap m a)) (f_size (ufile (heap m a)))) tok e m = (Some msg, m1)"
      "includes_str msg ''pause''" "x = Some Returned" "s' = s"
      "m' = sendUpdateToUI k (run_interference (during_wait e)
                                (savePersistedState (mark_paused k a m1)))"
  | (retry) msg m1 where "slice_error f = None"
      "uploadChunk k s (min (s + chunkSize (heap m a)) (f_size (ufile (heap m a)))) tok e m = (Some msg, m1)"
      "\<not> includes_str msg ''pause''" "x = None" "s' = s"
      "m' = run_interference (during_wait e) (m1\<lparr>effects := effects m1 @ [Delay 2000]\<rparr>)"
proof (cases "slice_error f")
  case (Some msg)
  with assms have "x = Some (Threw msg)" "s' = s" "m' = m"
    by (simp_all add: loop_body_def)
  with Some show ?thesis by (rule thrown)
next
  case None
  let ?e = "min (s + chunkSize (heap m a)) (f_size (ufile (heap m a)))"
  obtain t m1 where uc: "uploadChunk k s ?e tok e m = (t, m1)"
    by (cases "uploadChunk k s ?e tok e m")
  show ?thesis
  proof (cases t)
    case n: None
    let ?m2 = "record_progress k a ?e m1"
    from assms None uc n have "x = None" "s' = ?e"
      "m' = ?m2 \<or> m' = sendUpdateToUI k (run_interference (during_wait e) (savePersistedState ?m2))"
      by (auto simp: loop_body_def Let_def split: if_splits)
    with None uc n show ?thesis by (intro advance [of m1 ?m2]) simp_all
  next
    case (Some msg)
    show ?thesis
    proof (cases "includes_str msg ''pause''")
      case True
      with assms None uc Some have "x = Some Returned" "s' = s"
        "m' = sendUpdateToUI k (run_interference (during_wait e)
                                (savePersistedState (mark_paused k a m1)))"
        by (simp_all add: loop_body_def Let_def)
      with None uc Some True show ?thesis by (intro paused [of msg m1]) simp_all
    next
      case False
      with assms None uc Some have "x = None" "s' = s"
        "m' = run_interference (during_wait e) (m1\<lparr>effects := effects m1 @ [Delay 2000]\<rparr>)"
        by (simp_all add: loop_body_def Let_def)
      with None uc Some False show ?thesis by (intro retry [of msg m1]) simp_all
    qed
  qed
qed

lemma uploadChunk_result:
  assumes "uploadChunk k s e tok ev m = (t, m1)"
  shows "uploadedBytes (heap m1 b) = uploadedBytes (heap m b)"
    and "ufile (heap m1 b) = ufile (heap m b)"
    and "chunkSize (heap m1 b) = chunkSize (heap m b)"
    and "sessionUri (heap m1 b) = sessionUri (heap m b)"
    and "upload_id (heap m1 b) = upload_id (heap m b)"
    and "next_addr m1 = next_addr m"
    and "stored_settings m1 = stored_settings m"
proof -
  have "m1 = snd (uploadChunk k s e tok ev m)" by (simp add: assms)
  then show "uploadedBytes (heap m1 b) = uploadedBytes (heap m b)"
    and "ufile (heap m1 b) = ufile (heap m b)"
    and "chunkSize (heap m1 b) = chunkSize (heap m b)"
    and "sessionUri (heap m1 b) = sessionUri (heap m b)"
    and "upload_id (heap m1 b) = upload_id (heap m b)"
    and "next_addr m1 = next_addr m"
    and "stored_settings m1 = stored_settings m"
    by simp_all
qed

lemma loop_body_bytes:
  assumes "loop_body k a f tok s e m = (x, s', m')"
    and "loop_condition a s m"
    and "s = uploadedBytes (heap m a)"
    and "0 \<le> chunkSize (heap m a)"
  shows "s' = uploadedBytes (heap m' a)" and "s \<le> s'" and "s' \<le> f_size (ufile (heap m a))"
proof -
  have "s' = uploadedBytes (heap m' a) \<and> s \<le> s' \<and> s' \<le> f_size (ufile (heap m a))"
    using assms(1)
  proof (cases rule: loop_body_cases)
    case (thrown msg)
    with assms show ?thesis by (simp add: loop_condition_def)
  next
    case (advance m1 m2)
    from advance(6) have "uploadedBytes (heap m' a) = s'"
      using advance(3,5) by auto
    with advance(5) assms show ?thesis by (simp add: loop_condition_def)
  next
    case (paused msg m1)
    with assms uploadChunk_result(1) [OF paused(2), of a] show ?thesis
      by (simp add: loop_condition_def)
  next
    case (retry msg m1)
    with assms uploadChunk_result(1) [OF retry(2), of a] show ?thesis
      by (simp add: loop_condition_def)
  qed
  then show "s' = uploadedBytes (heap m' a)" and "s \<le> s'" and "s' \<le> f_size (ufile (heap m a))"
    by simp_all
qed

lemma loop_body_step:
  assumes "loop_body k a f tok s e m = (x, s', m')"
    and "loop_condition a s m"
    and "s = uploadedBytes (heap m a)"
    and "0 \<le> chunkSize (heap m a)"
    and "bytes_ok (heap m b)"
  shows "bytes_step (heap m b) (heap m' b)"
proof (cases "b = a")
  case True
  with loop_body_bytes [OF assms(1-4)] loop_body_fields(1,2) [OF assms(1), of a] assms(3)
  show ?thesis by (simp add: bytes_step_def)
next
  case False
  with loop_body_fields(1,2,7) [OF assms(1), of b] assms(5) show ?thesis
    by (simp add: bytes_step_same)
qed

lemma loop_body_not_pending: "loop_body k a f tok s e m \<noteq> (Some Pending, s', m')"
proof
  assume "loop_body k a f tok s e m = (Some Pending, s', m')"
  then show False by (cases rule: loop_body_cases) simp_all
qed

lemma loop_append:
  "uploadChunks_loop k a f tok s (es @ es2) m =
     (case uploadChunks_loop k a f tok s es m of
        (Pending, s', m') \<Rightarrow> uploadChunks_loop k a f tok s' es2 m'
      | r \<Rightarrow> r)"
proof (induction es arbitrary: s m)
  case Nil
  show ?case
  proof (cases es2)
    case Nil
    then show ?thesis by (simp split: option.splits)
  next
    case (Cons e es')
    then show ?thesis by (auto simp: loop_body_slice_error split: option.splits)
  qed
next
  case (Cons e es)
  obtain x s' m' where b: "loop_body k a f tok s e m = (x, s', m')"
    by (cases "loop_body k a f tok s e m")
  show ?case
  proof (cases "loop_condition a s m")
    case False
    then show ?thesis by simp
  next
    case True
    show ?thesis
    proof (cases x)
      case None
      with True b Cons.IH [of s' m'] show ?thesis by simp
    next
      case (Some r)
      with True b loop_body_not_pending [of k a f tok s e m s' m'] show ?thesis
        by (cases r) simp_all
    qed
  qed
qed

lemma loop_bytes:
  assumes "startByte = uploadedBytes (heap m a)" and "0 \<le> chunkSize (heap m a)"
    and "bytes_ok (heap m b)"
  shows "fst (snd (uploadChunks_loop k a f tok startByte es m))
           = uploadedBytes (heap (snd (snd (uploadChunks_loop k a f tok startByte es m))) a)"
    and "bytes_step (heap m b) (heap (snd (snd (uploadChunks_loop k a f tok startByte es m))) b)"
proof -
  define I where "I = (\<lambda>s' (m'::manager). s' = uploadedBytes (heap m' a) \<and> 0 \<le> chunkSize (heap m' a)
              \<and> bytes_step (heap m b) (heap m' b))"
  have "I (fst (snd (uploadChunks_loop k a f tok startByte es m)))
           (snd (snd (uploadChunks_loop k a f tok startByte es m)))"
  proof (rule loop_invariant [where I = I])
    show "I startByte m" using assms by (simp add: I_def bytes_step_refl)
  next
    fix s m1 e x s' m'
    assume i: "I s m1" and c: "loop_condition a s m1"
      and b: "loop_body k a f tok s e m1 = (x, s', m')"
    from i have i1: "s = uploadedBytes (heap m1 a)" and i2: "0 \<le> chunkSize (heap m1 a)"
      and i3: "bytes_step (heap m b) (heap m1 b)"
      by (simp_all add: I_def)
    from assms(3) i3 have ok: "bytes_ok (heap m1 b)" by (rule bytes_step_ok)
    have 1: "s' = uploadedBytes (heap m' a)" using b c i1 i2 by (rule loop_body_bytes(1))
    have 2: "0 \<le> chunkSize (heap m' a)" using i2 loop_body_fields(2) [OF b, of a] by simp
    have "bytes_step (heap m1 b) (heap m' b)" using b c i1 i2 ok by (rule loop_body_step)
    with i3 have 3: "bytes_step (heap m b) (heap m' b)" by (rule bytes_step_trans)
    from 1 2 3 show "I s' m'" by (simp add: I_def)
  qed
  then show "fst (snd (uploadChunks_loop k a f tok startByte es m))
           = uploadedBytes (heap (snd (snd (uploadChunks_loop k a f tok startByte es m))) a)"
    and "bytes_step (heap m b) (heap (snd (snd (uploadChunks_loop k a f tok startByte es m))) b)"
    by (simp_all add: I_def)
qed

lemma loop_other:
  assumes "b \<noteq> a" and "bytes_ok (heap m b)"
  shows "bytes_step (heap m b) (heap (snd (snd (uploadChunks_loop k a f tok startByte es m))) b)"
proof -
  define I where "I = (\<lambda>(s'::int) (m'::manager). bytes_step (heap m b) (heap m' b))"
  have "I (fst (snd (uploadChunks_loop k a f tok startByte es m)))
           (snd (snd (uploadChunks_loop k a f tok startByte es m)))"
  proof (rule loop_invariant [where I = I])
    show "I startByte m" using assms by (simp add: I_def bytes_step_refl)
  next
    fix s m1 e x s' m'
    assume i: "I s m1" and b: "loop_body k a f tok s e m1 = (x, s', m')"
    from i have i3: "bytes_step (heap m b) (heap m1 b)" by (simp add: I_def)
    from assms(2) i3 have ok: "bytes_ok (heap m1 b)" by (rule bytes_step_ok)
    have "bytes_step (heap m1 b) (heap m' b)"
      using ok loop_body_fields(1,2) [OF b, of b] loop_body_fields(7) [OF b assms(1)]
      by (rule bytes_step_same)
    with i3 show "I s' m'" unfolding I_def by (rule bytes_step_trans)
  qed
  then show ?thesis by (simp add: I_def)
qed

lemma loop_step:
  assumes "startByte = uploadedBytes (heap m a)" and "bytes_ok (heap m b)"
    and "0 \<le> chunkSize (heap m b)"
  shows "bytes_step (heap m b) (heap (snd (snd (uploadChunks_loop k a f tok startByte es m))) b)"
proof (cases "b = a")
  case True
  with assms show ?thesis by (simp add: loop_bytes(2))
next
  case False
  with assms show ?thesis by (simp add: loop_other)
qed

lemma uploadChunks_step:
  assumes "bytes_ok (heap m b)" and "0 \<le> chunkSize (heap m b)"
  shows "bytes_step (heap m b) (heap (snd (uploadChunks k f tok es m)) b)"
proof (cases "map_get (activeUploads m) (Key k)")
  case None
  with assms show ?thesis by (simp add: uploadChunks_def bytes_step_refl)
next
  case (Some a)
  show ?thesis
  proof (cases "status (heap m a) = ''paused''")
    case True
    with Some assms show ?thesis by (simp add: uploadChunks_def bytes_step_refl)
  next
    case False
    have "snd (uploadChunks k f tok es m)
            = snd (snd (uploadChunks_loop k a f tok (uploadedBytes (heap m a)) es m))"
      using Some False by (simp add: uploadChunks_def case_prod_beta)
    with loop_step [where a = a and m = m and b = b, OF refl assms] show ?thesis by simp
  qed
qed

lemma uploadChunks_append_done:
  assumes "fst (uploadChunks k f tok es m) \<noteq> Pending"
  shows "uploadChunks k f tok (es @ es2) m = uploadChunks k f tok es m"
proof (cases "map_get (activeUploads m) (Key k)")
  case None
  then show ?thesis by (simp add: uploadChunks_def)
next
  case (Some a)
  show ?thesis
  proof (cases "status (heap m a) = ''paused''")
    case True
    with Some show ?thesis by (simp add: uploadChunks_def)
  next
    case False
    obtain r s' m' where l: "uploadChunks_loop k a f tok (uploadedBytes (heap m a)) es m = (r, s', m')"
      by (cases "uploadChunks_loop k a f tok (uploadedBytes (heap m a)) es m")
    with assms Some False have "r \<noteq> Pending" by (simp add: uploadChunks_def)
    with l have "uploadChunks_loop k a f tok (uploadedBytes (heap m a)) (es @ es2) m = (r, s', m')"
      by (cases r) (simp_all add: loop_append)
    with l Some False show ?thesis by (simp add: uploadChunks_def)
  qed
qed

lemma loop_body_track:
  assumes "loop_body k a f tok s e m = (x, s', m')" and "s = uploadedBytes (heap m a)"
  shows "s' = uploadedBytes (heap m' a)"
  using assms(1)
proof (cases rule: loop_body_cases)
  case (thrown msg)
  with assms show ?thesis by simp
next
  case (advance m1 m2)
  from advance(6) show ?thesis using advance(3,5) by auto
next
  case (paused msg m1)
  with assms uploadChunk_result(1) [OF paused(2), of a] show ?thesis by simp
next
  case (retry msg m1)
  with assms uploadChunk_result(1) [OF retry(2), of a] show ?thesis by simp
qed

lemma loop_track:
  assumes "startByte = uploadedBytes (heap m a)"
  shows "fst (snd (uploadChunks_loop k a f tok startByte es m))
           = uploadedBytes (heap (snd (snd (uploadChunks_loop k a f tok startByte es m))) a)"
proof -
  define I where "I = (\<lambda>(s'::int) (m'::manager). s' = uploadedBytes (heap m' a))"
  have "I (fst (snd (uploadChunks_loop k a f tok startByte es m)))
           (snd (snd (uploadChunks_loop k a f tok startByte es m)))"
  proof (rule loop_invariant [where I = I])
    show "I startByte m" using assms by (simp add: I_def)
  next
    fix s m1 e x s' m'
    assume "I s m1" and b: "loop_body k a f tok s e m1 = (x, s', m')"
    then have "s = uploadedBytes (heap m1 a)" by (simp add: I_def)
    with b show "I s' m'" unfolding I_def by (rule loop_body_track)
  qed
  then show ?thesis by (simp add: I_def)
qed

lemma uploadChunks_append_step:
  assumes "bytes_ok (heap m b)" and "0 \<le> chunkSize (heap m b)"
  shows "bytes_step (heap (snd (uploadChunks k f tok es m)) b)
           (heap (snd (uploadChunks k f tok (es @ es2) m)) b)"
proof (cases "fst (uploadChunks k f tok es m) = Pending")
  case False
  have "bytes_ok (heap (snd (uploadChunks k f tok es m)) b)"
    using assms(1) uploadChunks_step [OF assms] by (rule bytes_step_ok)
  with False show ?thesis by (simp add: uploadChunks_append_done bytes_step_refl)
next
  case True
  then obtain a where a: "map_get (activeUploads m) (Key k) = Some a" and np: "status (heap m a) \<noteq> ''paused''"
    by (auto simp: uploadChunks_def split: option.splits if_splits)
  let ?s = "uploadedBytes (heap m a)"
  obtain r s' m' where l: "uploadChunks_loop k a f tok ?s es m = (r, s', m')"
    by (cases "uploadChunks_loop k a f tok ?s es m")
  with True a np have r: "r = Pending" by (simp add: uploadChunks_def)
  have s': "s' = uploadedBytes (heap m' a)"
    using loop_track [where a = a and m = m, OF refl, of k f tok es] l by simp
  have st: "bytes_step (heap m b) (heap m' b)"
    using loop_step [where a = a and m = m and b = b, OF refl assms, of k f tok es] l by simp
  with assms have ok': "bytes_ok (heap m' b)" and cs: "0 \<le> chunkSize (heap m' b)"
    by (auto simp: bytes_step_def bytes_ok_def)
  have first: "snd (uploadChunks k f tok es m) = m'"
    using a np l by (simp add: uploadChunks_def)
  have "uploadChunks_loop k a f tok ?s (es @ es2) m = uploadChunks_loop k a f tok s' es2 m'"
    using l r by (simp add: loop_append)
  then have second: "snd (uploadChunks k f tok (es @ es2) m)
      = snd (snd (uploadChunks_loop k a f tok s' es2 m'))"
    using a np by (simp add: uploadChunks_def case_prod_beta)
  show ?thesis
    unfolding first second using s' ok' cs by (rule loop_step)
qed

lemma same_bytes_refl [simp]: "same_bytes u u"
  by (simp add: same_bytes_def)

lemma same_bytes_trans: "same_bytes u v \<Longrightarrow> same_bytes v w \<Longrightarrow> same_bytes u w"
  by (auto simp: same_bytes_def)

lemma same_bytes_step: "bytes_ok u \<Longrightarrow> same_bytes u v \<Longrightarrow> bytes_step u v"
  by (auto simp: same_bytes_def bytes_ok_def bytes_step_def)

lemma same_bytes_ok: "bytes_ok u \<Longrightarrow> same_bytes u v \<Longrightarrow> bytes_ok v"
  by (auto simp: same_bytes_def bytes_ok_def)

lemma same_then_step: "same_bytes u v \<Longrightarrow> bytes_step v w \<Longrightarrow> bytes_step u w"
  by (auto simp: same_bytes_def bytes_step_def)

lemma step_then_same: "bytes_step u v \<Longrightarrow> same_bytes v w \<Longrightarrow> bytes_step u w"
  by (auto simp: same_bytes_def bytes_step_def)

lemma run_interference_same [simp]: "same_bytes (heap m b) (heap (run_interference xs m) b)"
  by (simp add: same_bytes_def)

lemma pauseUpload_same [simp]: "same_bytes (heap m b) (heap (snd (pauseUpload k m)) b)"
  by (simp add: same_bytes_def)

lemma resumeUpload_same [simp]: "same_bytes (heap m b) (heap (snd (resumeUpload k m)) b)"
  by (simp add: same_bytes_def resumeUpload_def split: option.splits)

lemma initResumableUpload_proj [simp]:
  "heap (snd (initResumableUpload u tok ini m)) = heap m"
  "next_addr (snd (initResumableUpload u tok ini m)) = next_addr m"
  "activeUploads (snd (initResumableUpload u tok ini m)) = activeUploads m"
  "stored_settings (snd (initResumableUpload u tok ini m)) = stored_settings m"
  "stored_uploads (snd (initResumableUpload u tok ini m)) = stored_uploads m"
  by (simp_all add: initResumableUpload_def Let_def split: init_result.splits)

lemma open_session_same [simp]:
  "same_bytes (heap m b) (heap (snd (open_session k a tok env m)) b)"
  by (simp add: open_session_def same_bytes_def Let_def case_prod_beta split: sum.splits)

lemma mark_completed_same [simp]: "same_bytes (heap m b) (heap (mark_completed k a now m) b)"
  by (simp add: mark_completed_def same_bytes_def)

lemma mark_error_same [simp]: "same_bytes (heap m b) (heap (mark_error k a msg m) b)"
  by (simp add: mark_error_def same_bytes_def)

lemma session_prefix_same [simp]:
  "same_bytes (heap m b) (heap (snd (session_prefix k a env m)) b)"
proof -
  let ?m1 = "run_interference (env_during_token env) m"
  have 1: "same_bytes (heap m b) (heap ?m1 b)" by simp
  have 2: "same_bytes (heap ?m1 b) (heap (snd (open_session k a (the (env_token env)) env ?m1)) b)"
    by simp
  have 3: "same_bytes (heap m b) (heap (snd (open_session k a (the (env_token env)) env ?m1)) b)"
    using 1 2 by (rule same_bytes_trans)
  show ?thesis
    by (simp add: session_prefix_def Let_def 3)
qed

lemma open_session_events [simp]:
  "open_session k a tok (env\<lparr>env_events := es\<rparr>) m = open_session k a tok env m"
  by (simp add: open_session_def Let_def case_prod_beta split: sum.splits)

lemma session_prefix_events [simp]:
  "session_prefix k a (env\<lparr>env_events := es\<rparr>) m = session_prefix k a env m"
  by (simp add: session_prefix_def Let_def)

lemma processUpload_try_auth:
  "\<not> truthy (env_token env) \<Longrightarrow>
   processUpload_try k a f env m = (Threw ''Authentication required'', run_interference (env_during_token env) m)"
  by (simp add: processUpload_try_def)

lemma processUpload_try_init:
  "truthy (env_token env) \<Longrightarrow> session_prefix k a env m = (Some msg, m2) \<Longrightarrow>
   processUpload_try k a f env m = (Threw msg, m2)"
  by (simp add: processUpload_try_def session_prefix_def Let_def)

lemma processUpload_try_chunks:
  "truthy (env_token env) \<Longrightarrow> session_prefix k a env m = (None, m2) \<Longrightarrow>
   processUpload_try k a f env m =
     (case uploadChunks k f (the (env_token env)) (env_events env) m2 of
        (Returned, m3) \<Rightarrow>
          if uploadedBytes (heap m3 a) \<ge> f_size (ufile (heap m3 a))
          then (Returned, mark_completed k a (env_now env) m3)
          else (Returned, m3)
      | (Threw msg, m3) \<Rightarrow> (Threw msg, m3)
      | (Pending, m3) \<Rightarrow> (Pending, m3))"
  by (simp add: processUpload_try_def session_prefix_def Let_def)

lemma processUpload_try_chunks_same:
  assumes "truthy (env_token env)" and "session_prefix k a env m = (None, m2)"
  shows "same_bytes (heap (snd (uploadChunks k f (the (env_token env)) (env_events env) m2)) b)
           (heap (snd (processUpload_try k a f env m)) b)"
  by (simp add: processUpload_try_chunks [OF assms] split: prod.splits outcome.splits)

lemma processUpload_try_step:
  assumes "bytes_ok (heap m b)" and "0 \<le> chunkSize (heap m b)"
  shows "bytes_step (heap m b) (heap (snd (processUpload_try k a f env m)) b)"
proof (cases "truthy (env_token env)")
  case False
  with assms(1) show ?thesis by (simp add: processUpload_try_auth same_bytes_step)
next
  case True
  obtain t m2 where p: "session_prefix k a env m = (t, m2)"
    by (cases "session_prefix k a env m")
  have s2: "same_bytes (heap m b) (heap m2 b)"
    using session_prefix_same [of m b k a env] p by simp
  show ?thesis
  proof (cases t)
    case (Some msg)
    with True p s2 assms(1) show ?thesis by (simp add: processUpload_try_init same_bytes_step)
  next
    case None
    from s2 assms have ok2: "bytes_ok (heap m2 b)" and cs2: "0 \<le> chunkSize (heap m2 b)"
      by (auto simp: same_bytes_def bytes_ok_def)
    have "bytes_step (heap m2 b) (heap (snd (uploadChunks k f (the (env_token env)) (env_events env) m2)) b)"
      using ok2 cs2 by (rule uploadChunks_step)
    with s2 have "bytes_step (heap m b) (heap (snd (uploadChunks k f (the (env_token env)) (env_events env) m2)) b)"
      by (rule same_then_step)
    then show ?thesis
      using processUpload_try_chunks_same [OF True p [unfolded None]] by (rule step_then_same)
  qed
qed

lemma processUpload_same_try:
  "map_get (activeUploads m) (Key k) = Some a \<Longrightarrow>
   same_bytes (heap (snd (processUpload_try k a f env m)) b) (heap (snd (processUpload k f env m)) b)"
  by (simp add: processUpload_def split: prod.splits outcome.splits)

lemma processUpload_step:
  assumes "bytes_ok (heap m b)" and "0 \<le> chunkSize (heap m b)"
  shows "bytes_step (heap m b) (heap (snd (processUpload k f env m)) b)"
proof (cases "map_get (activeUploads m) (Key k)")
  case None
  with assms(1) show ?thesis by (simp add: processUpload_def bytes_step_refl)
next
  case (Some a)
  from processUpload_try_step [OF assms] processUpload_same_try [OF Some]
  show ?thesis by (rule step_then_same)
qed

lemma same_bytes_sym: "same_bytes u v \<Longrightarrow> same_bytes v u"
  by (simp add: same_bytes_def)

lemma bytes_step_sandwich:
  "same_bytes u u' \<Longrightarrow> bytes_step u v \<Longrightarrow> same_bytes v v' \<Longrightarrow> bytes_step u' v'"
  by (auto simp: same_bytes_def bytes_step_def)

lemma processUpload_try_append_step:
  assumes "bytes_ok (heap m b)" and "0 \<le> chunkSize (heap m b)"
  shows "bytes_step (heap (snd (processUpload_try k a f (env\<lparr>env_events := es\<rparr>) m)) b)
           (heap (snd (processUpload_try k a f (env\<lparr>env_events := es @ es2\<rparr>) m)) b)"
proof (cases "truthy (env_token env)")
  case False
  then show ?thesis
    using assms(1) by (simp add: processUpload_try_auth same_bytes_ok bytes_step_refl)
next
  case True
  let ?env1 = "env\<lparr>env_events := es\<rparr>" and ?env2 = "env\<lparr>env_events := es @ es2\<rparr>"
  have t1: "truthy (env_token ?env1)" and t2: "truthy (env_token ?env2)"
    using True by simp_all
  obtain t m2 where p: "session_prefix k a env m = (t, m2)"
    by (cases "session_prefix k a env m")
  then have p1: "session_prefix k a ?env1 m = (t, m2)" and p2: "session_prefix k a ?env2 m = (t, m2)"
    by simp_all
  have s2: "same_bytes (heap m b) (heap m2 b)"
    using session_prefix_same [of m b k a env] p by simp
  from assms(1) s2 have ok2: "bytes_ok (heap m2 b)" by (rule same_bytes_ok)
  from s2 assms(2) have cs2: "0 \<le> chunkSize (heap m2 b)" by (simp add: same_bytes_def)
  show ?thesis
  proof (cases t)
    case (Some msg)
    with t1 t2 p1 p2 ok2 show ?thesis
      by (simp add: processUpload_try_init bytes_step_refl)
  next
    case None
    let ?tok = "the (env_token env)"
    have u: "bytes_step (heap (snd (uploadChunks k f ?tok es m2)) b)
               (heap (snd (uploadChunks k f ?tok (es @ es2) m2)) b)"
      using ok2 cs2 by (rule uploadChunks_append_step)
    have a1: "same_bytes (heap (snd (uploadChunks k f ?tok es m2)) b)
               (heap (snd (processUpload_try k a f ?env1 m)) b)"
      using processUpload_try_chunks_same [OF t1 p1 [unfolded None], of f b] by simp
    have a2: "same_bytes (heap (snd (uploadChunks k f ?tok (es @ es2) m2)) b)
               (heap (snd (processUpload_try k a f ?env2 m)) b)"
      using processUpload_try_chunks_same [OF t2 p2 [unfolded None], of f b] by simp
    from a1 u a2 show ?thesis by (rule bytes_step_sandwich)
  qed
qed

lemma processUpload_append_step:
  assumes "bytes_ok (heap m b)" and "0 \<le> chunkSize (heap m b)"
  shows "bytes_step (heap (snd (processUpload k f (env\<lparr>env_events := es\<rparr>) m)) b)
           (heap (snd (processUpload k f (env\<lparr>env_events := es @ es2\<rparr>) m)) b)"
proof (cases "map_get (activeUploads m) (Key k)")
  case None
  with assms(1) show ?thesis by (simp add: processUpload_def bytes_step_refl)
next
  case (Some a)
  from processUpload_same_try [OF Some] processUpload_try_append_step [OF assms]
    processUpload_same_try [OF Some]
  show ?thesis by (rule bytes_step_sandwich)
qed

lemma cancelUpload_same [simp]: "same_bytes (heap m b) (heap (snd (cancelUpload k tok del m)) b)"
  by simp

lemma recover_loop_same [simp]: "same_bytes (heap m b) (heap (recover_loop kvs m) b)"
proof (induction kvs m rule: recover_loop.induct)
  case (1 m)
  then show ?case by simp
next
  case (2 k a rest m)
  let ?m' = "if status (heap m a) = ''uploading'' \<or> status (heap m a) = ''paused''
        then m\<lparr>heap := (heap m)(a := (heap m a)\<lparr>status := ''interrupted''\<rparr>),
               activeUploads := map_set k a (activeUploads m)\<rparr>
        else m"
  have "same_bytes (heap m b) (heap ?m' b)" by (simp add: same_bytes_def)
  with 2 show ?case by (auto intro: same_bytes_trans)
qed

lemma recoverInterruptedUploads_same [simp]:
  "same_bytes (heap m b) (heap (recoverInterruptedUploads m) b)"
  by (simp add: recoverInterruptedUploads_def)

lemma startUpload_heap:
  "heap (snd (startUpload k now f folder m)) =
     (case info_of f of None \<Rightarrow> heap m | Some i \<Rightarrow> (heap m)(next_addr m := new_upload k i folder now))"
  by (simp add: startUpload_def split: option.splits)

subsection \<open>Recovery and the shape of the \<^verbatim>\<open>Map\<close>\<close>

lemma recover_loop_proj [simp]:
  "next_addr (recover_loop kvs m) = next_addr m"
  "others (recover_loop kvs m) = others m"
  "stored_settings (recover_loop kvs m) = stored_settings m"
  "effects (recover_loop kvs m) = effects m"
  by (induction kvs m rule: recover_loop.induct) simp_all

lemma recover_loop_registry:
  "\<forall>p \<in> set kvs. map_get (activeUploads m) (fst p) = Some (snd p) \<Longrightarrow>
   activeUploads (recover_loop kvs m) = activeUploads m"
proof (induction kvs m rule: recover_loop.induct)
  case (1 m)
  then show ?case by simp
next
  case (2 k a rest m)
  let ?m' = "if status (heap m a) = ''uploading'' \<or> status (heap m a) = ''paused''
        then m\<lparr>heap := (heap m)(a := (heap m a)\<lparr>status := ''interrupted''\<rparr>),
               activeUploads := map_set k a (activeUploads m)\<rparr>
        else m"
  from "2.prems" have "map_get (activeUploads m) k = Some a" by simp
  then have same: "activeUploads ?m' = activeUploads m" by (simp add: map_set_same)
  with "2.prems" have "\<forall>p \<in> set rest. map_get (activeUploads ?m') (fst p) = Some (snd p)"
    by simp
  then have "activeUploads (recover_loop rest ?m') = activeUploads ?m'" by (rule "2.IH")
  with same show ?case by simp
qed

lemma recover_loop_heap:
  "heap (recover_loop kvs m) b =
     (if b \<in> snd ` set kvs \<and> (status (heap m b) = ''uploading'' \<or> status (heap m b) = ''paused'')
      then (heap m b)\<lparr>status := ''interrupted''\<rparr> else heap m b)"
proof (induction kvs m rule: recover_loop.induct)
  case (1 m)
  then show ?case by simp
next
  case (2 k a rest m)
  show ?case
  proof (cases "status (heap m a) = ''uploading'' \<or> status (heap m a) = ''paused''")
    case True
    then show ?thesis using "2.IH" by (cases "b = a") auto
  next
    case False
    then show ?thesis using "2.IH" by (cases "b = a") auto
  qed
qed

lemma registry_lookup: "distinct (map fst kvs) \<Longrightarrow> \<forall>p \<in> set kvs. map_get kvs (fst p) = Some (snd p)"
  by (auto intro: map_get_distinct)

lemma recoverInterruptedUploads_registry:
  "distinct (map fst (activeUploads m)) \<Longrightarrow>
   activeUploads (recoverInterruptedUploads m) = activeUploads m"
  by (simp add: recoverInterruptedUploads_def recover_loop_registry registry_lookup)

lemma recoverInterruptedUploads_heap:
  "heap (recoverInterruptedUploads m) b =
     (if b \<in> set (getUploads m) \<and> (status (heap m b) = ''uploading'' \<or> status (heap m b) = ''paused'')
      then (heap m b)\<lparr>status := ''interrupted''\<rparr> else heap m b)"
  by (simp add: recoverInterruptedUploads_def recover_loop_heap getUploads_def map_values_def)

lemma recoverInterruptedUploads_stored:
  "distinct (map fst (activeUploads m)) \<Longrightarrow>
   stored_uploads (recoverInterruptedUploads m) =
     Entries (map (stored_entry_of (recoverInterruptedUploads m)) (getUploads m))"
proof -
  assume "distinct (map fst (activeUploads m))"
  then have "\<forall>p \<in> set (activeUploads m). map_get (activeUploads m) (fst p) = Some (snd p)"
    by (rule registry_lookup)
  then have "activeUploads (recover_loop (activeUploads m) m) = activeUploads m"
    by (rule recover_loop_registry)
  then show ?thesis
    by (simp add: recoverInterruptedUploads_def stored_savePersistedState getUploads_def)
qed

lemma wf_recoverInterruptedUploads:
  "wf_registry m \<Longrightarrow> wf_registry (recoverInterruptedUploads m)"
  by (simp add: wf_registry_def recoverInterruptedUploads_registry)
    (simp add: recoverInterruptedUploads_def)

lemma values_map_set:
  "set (map snd (map_set k v kvs)) \<subseteq> insert v (set (map snd kvs))"
  using set_map_set [of k v kvs] by force

lemma distinct_snd_map_set:
  "distinct (map snd kvs) \<Longrightarrow> v \<notin> set (map snd kvs) \<Longrightarrow> distinct (map snd (map_set k v kvs))"
proof (induction kvs)
  case Nil
  then show ?case by simp
next
  case (Cons p kvs)
  obtain k' v' where p: "p = (k', v')" by (cases p)
  from Cons have ih: "distinct (map snd (map_set k v kvs))" by simp
  have "v' \<notin> set (map snd (map_set k v kvs))"
    using values_map_set [of k v kvs] Cons.prems p by auto
  with ih Cons.prems p show ?case by auto
qed

lemma wf_insert_fresh:
  assumes "wf_registry m" and "next_addr m' = Suc (next_addr m)"
    and "activeUploads m' = map_set k (next_addr m) (activeUploads m)"
  shows "wf_registry m'"
proof -
  from assms have fresh: "next_addr m \<notin> set (map snd (activeUploads m))"
    by (auto simp: wf_registry_def)
  have "\<forall>a \<in> set (map snd (map_set k (next_addr m) (activeUploads m))). a < Suc (next_addr m)"
  proof
    fix a assume "a \<in> set (map snd (map_set k (next_addr m) (activeUploads m)))"
    with values_map_set [of k "next_addr m" "activeUploads m"]
    have "a = next_addr m \<or> a \<in> set (map snd (activeUploads m))" by blast
    with assms show "a < Suc (next_addr m)" by (auto simp: wf_registry_def less_Suc_eq)
  qed
  with assms fresh show ?thesis
    by (simp add: wf_registry_def distinct_fst_map_set distinct_snd_map_set)
qed

lemma wf_load_entries: "wf_registry m \<Longrightarrow> wf_registry (load_entries es m)"
proof (induction es m rule: load_entries.induct)
  case (1 m)
  then show ?case by simp
next
  case (2 es m)
  then show ?case by simp
next
  case (3 u es m)
  from "3.prems" have "wf_registry (m\<lparr>heap := (heap m)(next_addr m := u),
          others := (others m)(next_addr m := None),
          next_addr := Suc (next_addr m),
          activeUploads := map_set (Key (upload_id u)) (next_addr m) (activeUploads m)\<rparr>)"
    by (rule wf_insert_fresh) simp_all
  then show ?case using "3.IH" by simp
next
  case (4 v es m)
  from "4.prems" have "wf_registry (m\<lparr>heap := (heap m)(next_addr m := blank_upload),
          others := (others m)(next_addr m := Some v),
          next_addr := Suc (next_addr m),
          activeUploads := map_set Undefined (next_addr m) (activeUploads m)\<rparr>)"
    by (rule wf_insert_fresh) simp_all
  then show ?case using "4.IH" by simp
qed

lemma wf_loadPersistedState: "wf_registry m \<Longrightarrow> wf_registry (loadPersistedState ok m)"
  by (simp add: loadPersistedState_def wf_load_entries split: snapshot.splits)

lemma wf_constructed: "wf_registry (constructed snap sets)"
  by (simp add: wf_registry_def constructed_def)

subsection \<open>What a transfer leaves alone\<close>

lemma interrupted_at_cong:
  "heap m' = heap m \<Longrightarrow> next_addr m' = next_addr m \<Longrightarrow> activeUploads m' = activeUploads m \<Longrightarrow>
   interrupted_at k a m' = interrupted_at k a m"
  by (simp add: interrupted_at_def)

lemma ia_save [simp]: "interrupted_at k a (savePersistedState m) = interrupted_at k a m"
  by (rule interrupted_at_cong) simp_all

lemma ia_send [simp]: "interrupted_at k a (sendUpdateToUI k' m) = interrupted_at k a m"
  by (rule interrupted_at_cong) simp_all

lemma ia_effects [simp]: "interrupted_at k a (m\<lparr>effects := e\<rparr>) = interrupted_at k a m"
  by (rule interrupted_at_cong) simp_all

lemma ia_update:
  assumes "interrupted_at k a m" and "a' \<noteq> a" and "k' \<noteq> k"
  shows "interrupted_at k a (m\<lparr>heap := (heap m)(a' := u),
                               activeUploads := map_set (Key k') a' (activeUploads m)\<rparr>)"
proof -
  have "\<forall>p \<in> set (map_set (Key k') a' (activeUploads m)). (snd p = a) = (fst p = Key k)"
  proof
    fix p assume "p \<in> set (map_set (Key k') a' (activeUploads m))"
    with set_map_set [of "Key k'" a' "activeUploads m"]
    have "p = (Key k', a') \<or> p \<in> set (activeUploads m)" by blast
    with assms show "(snd p = a) = (fst p = Key k)" by (auto simp: interrupted_at_def)
  qed
  with assms show ?thesis by (simp add: interrupted_at_def)
qed

lemma ia_shrink:
  assumes "interrupted_at k a m" and "set kvs \<subseteq> set (activeUploads m)"
  shows "interrupted_at k a (m\<lparr>activeUploads := kvs\<rparr>)"
  using assms by (auto simp: interrupted_at_def)

lemma ia_pause: "interrupted_at k a m \<Longrightarrow> interrupted_at k a (snd (pauseUpload k' m))"
proof -
  assume i: "interrupted_at k a m"
  have "heap (snd (pauseUpload k' m)) a = heap m a"
    using i by (auto simp: pauseUpload_def interrupted_at_def split: option.splits)
  with i show ?thesis by (simp add: interrupted_at_def)
qed

lemma ia_cancel:
  "interrupted_at k a m \<Longrightarrow> interrupted_at k a (snd (cancelUpload k' tok del m))"
  using set_map_delete [of "Key k'" "activeUploads m"]
  by (auto simp: interrupted_at_def cancelUpload_registry split: if_splits)

lemma ia_interference:
  "interrupted_at k a m \<Longrightarrow> interrupted_at k a (run_interference xs m)"
  by (induction xs m rule: run_interference.induct) (simp_all add: ia_pause ia_cancel)

lemma ia_lookup:
  "interrupted_at k a m \<Longrightarrow> map_get (activeUploads m) (Key k') = Some a' \<Longrightarrow> k' \<noteq> k \<Longrightarrow> a' \<noteq> a"
  by (auto simp: interrupted_at_def dest!: map_get_in_set)

lemma ia_record_progress:
  "interrupted_at k a m \<Longrightarrow> a' \<noteq> a \<Longrightarrow> k' \<noteq> k \<Longrightarrow> interrupted_at k a (record_progress k' a' e m)"
  unfolding record_progress_def by (rule ia_update)

lemma ia_mark_paused:
  "interrupted_at k a m \<Longrightarrow> a' \<noteq> a \<Longrightarrow> k' \<noteq> k \<Longrightarrow> interrupted_at k a (mark_paused k' a' m)"
  unfolding mark_paused_def by (rule ia_update)

lemma ia_mark_completed:
  "interrupted_at k a m \<Longrightarrow> a' \<noteq> a \<Longrightarrow> k' \<noteq> k \<Longrightarrow> interrupted_at k a (mark_completed k' a' now m)"
  unfolding mark_completed_def by (simp add: ia_update)

lemma ia_mark_error:
  "interrupted_at k a m \<Longrightarrow> a' \<noteq> a \<Longrightarrow> k' \<noteq> k \<Longrightarrow> interrupted_at k a (mark_error k' a' msg m)"
  unfolding mark_error_def by (simp add: ia_update)

lemma ia_uploadChunk:
  "interrupted_at k a m \<Longrightarrow> interrupted_at k a (snd (uploadChunk k' s e tok ev m))"
  by (simp add: uploadChunk_def Let_def ia_interference
      split: option.splits fetch_result.splits)

lemma ia_uploadChunk_result:
  "uploadChunk k' s e tok ev m = (t, m1) \<Longrightarrow> interrupted_at k a m \<Longrightarrow> interrupted_at k a m1"
  using ia_uploadChunk [of k a m k' s e tok ev] by simp

lemma ia_loop_body:
  assumes "loop_body k' a' f tok s e m = (x, s', m')"
    and "interrupted_at k a m" and "a' \<noteq> a" and "k' \<noteq> k"
  shows "interrupted_at k a m'"
  using assms(1)
proof (cases rule: loop_body_cases)
  case (thrown msg)
  with assms show ?thesis by simp
next
  case (advance m1 m2)
  have "interrupted_at k a m1"
    using advance(2) assms(2) by (rule ia_uploadChunk_result)
  then have "interrupted_at k a m2"
    unfolding advance(3) using assms(3,4) by (rule ia_record_progress)
  with advance(6) show ?thesis by (auto simp: ia_interference)
next
  case (paused msg m1)
  have "interrupted_at k a m1"
    using paused(2) assms(2) by (rule ia_uploadChunk_result)
  then have "interrupted_at k a (mark_paused k' a' m1)"
    using assms(3,4) by (rule ia_mark_paused)
  with paused(6) show ?thesis by (simp add: ia_interference)
next
  case (retry msg m1)
  have "interrupted_at k a m1"
    using retry(2) assms(2) by (rule ia_uploadChunk_result)
  with retry(6) show ?thesis by (simp add: ia_interference)
qed

lemma ia_loop:
  assumes "interrupted_at k a m" and "a' \<noteq> a" and "k' \<noteq> k"
  shows "interrupted_at k a (snd (snd (uploadChunks_loop k' a' f tok s es m)))"
proof -
  define I where "I = (\<lambda>(s'::int) (m'::manager). interrupted_at k a m')"
  have "I (fst (snd (uploadChunks_loop k' a' f tok s es m)))
           (snd (snd (uploadChunks_loop k' a' f tok s es m)))"
  proof (rule loop_invariant [where I = I])
    show "I s m" using assms by (simp add: I_def)
  next
    fix s m1 e x s' m'
    assume "I s m1" and b: "loop_body k' a' f tok s e m1 = (x, s', m')"
    then have "interrupted_at k a m1" by (simp add: I_def)
    with b show "I s' m'" unfolding I_def using assms(2,3) by (rule ia_loop_body)
  qed
  then show ?thesis by (simp add: I_def)
qed

lemma ia_uploadChunks:
  assumes "interrupted_at k a m" and "k' \<noteq> k"
  shows "interrupted_at k a (snd (uploadChunks k' f tok es m))"
proof (cases "map_get (activeUploads m) (Key k')")
  case None
  with assms show ?thesis by (simp add: uploadChunks_def)
next
  case (Some a')
  with assms have "a' \<noteq> a" by (auto dest: ia_lookup)
  with assms have "interrupted_at k a
      (snd (snd (uploadChunks_loop k' a' f tok (uploadedBytes (heap m a')) es m)))"
    by (simp add: ia_loop)
  with Some assms(1) show ?thesis by (simp add: uploadChunks_def case_prod_beta)
qed

lemma ia_initResumableUpload [simp]:
  "interrupted_at k a (snd (initResumableUpload u tok ini m)) = interrupted_at k a m"
  by (rule interrupted_at_cong) simp_all

lemma ia_open_session:
  assumes "interrupted_at k a m" and "a' \<noteq> a" and "k' \<noteq> k"
  shows "interrupted_at k a (snd (open_session k' a' tok env m))"
proof -
  obtain r m1 where i: "initResumableUpload (heap m a') tok (env_init env) m = (r, m1)"
    by (cases "initResumableUpload (heap m a') tok (env_init env) m")
  have m1: "interrupted_at k a m1"
    using ia_initResumableUpload [of k a "heap m a'" tok "env_init env" m] i assms(1) by simp
  then have m2: "interrupted_at k a (run_interference (env_during_init env) m1)"
    by (rule ia_interference)
  show ?thesis
  proof (cases r)
    case (Inl msg)
    with i m2 show ?thesis by (simp add: open_session_def)
  next
    case (Inr loc)
    let ?m2 = "run_interference (env_during_init env) m1"
    have "interrupted_at k a (?m2\<lparr>heap := (heap ?m2)(a' := (heap ?m2 a')\<lparr>sessionUri := loc, status := ''uploading''\<rparr>),
                      activeUploads := map_set (Key k') a' (activeUploads ?m2)\<rparr>)"
      using m2 assms(2,3) by (rule ia_update)
    with i Inr show ?thesis by (simp add: open_session_def Let_def ia_interference)
  qed
qed

lemma ia_session_prefix:
  assumes "interrupted_at k a m" and "a' \<noteq> a" and "k' \<noteq> k"
  shows "interrupted_at k a (snd (session_prefix k' a' env m))"
  using assms by (simp add: session_prefix_def Let_def ia_interference ia_open_session)

lemma ia_processUpload_try:
  assumes "interrupted_at k a m" and "a' \<noteq> a" and "k' \<noteq> k"
  shows "interrupted_at k a (snd (processUpload_try k' a' f env m))"
proof (cases "truthy (env_token env)")
  case False
  with assms(1) show ?thesis by (simp add: processUpload_try_auth ia_interference)
next
  case True
  obtain t m2 where p: "session_prefix k' a' env m = (t, m2)"
    by (cases "session_prefix k' a' env m")
  have m2: "interrupted_at k a m2"
    using ia_session_prefix [OF assms, of env] p by simp
  show ?thesis
  proof (cases t)
    case (Some msg)
    with True p m2 show ?thesis by (simp add: processUpload_try_init)
  next
    case None
    have "interrupted_at k a (snd (uploadChunks k' f (the (env_token env)) (env_events env) m2))"
      using m2 assms(3) by (rule ia_uploadChunks)
    then show ?thesis
      using assms(2,3)
      by (auto simp: processUpload_try_chunks [OF True p [unfolded None]] ia_mark_completed
          split: prod.splits outcome.splits)
  qed
qed

lemma ia_processUpload:
  assumes "interrupted_at k a m" and "k' \<noteq> k"
  shows "interrupted_at k a (snd (processUpload k' f env m))"
proof (cases "map_get (activeUploads m) (Key k')")
  case None
  with assms show ?thesis by (simp add: processUpload_def)
next
  case (Some a')
  with assms have ne: "a' \<noteq> a" by (auto dest: ia_lookup)
  have "interrupted_at k a (snd (processUpload_try k' a' f env m))"
    using assms(1) ne assms(2) by (rule ia_processUpload_try)
  with Some ne assms(2) show ?thesis
    by (auto simp: processUpload_def ia_mark_error split: prod.splits outcome.splits)
qed

lemma ia_startUpload:
  assumes "interrupted_at k a m" and "k' \<noteq> k"
  shows "interrupted_at k a (snd (startUpload k' now f folder m))"
proof (cases "info_of f")
  case None
  with assms show ?thesis by (simp add: startUpload_def)
next
  case (Some i)
  from assms(1) have ne: "next_addr m \<noteq> a" by (auto simp: interrupted_at_def)
  have "\<forall>p \<in> set (map_set (Key k') (next_addr m) (activeUploads m)). (snd p = a) = (fst p = Key k)"
  proof
    fix p assume "p \<in> set (map_set (Key k') (next_addr m) (activeUploads m))"
    with set_map_set [of "Key k'" "next_addr m" "activeUploads m"]
    have "p = (Key k', next_addr m) \<or> p \<in> set (activeUploads m)" by blast
    with assms ne show "(snd p = a) = (fst p = Key k)" by (auto simp: interrupted_at_def)
  qed
  with assms ne Some show ?thesis
    by (simp add: startUpload_def interrupted_at_def less_Suc_eq)
qed

lemma ia_resumeUpload:
  assumes "interrupted_at k a m" and "k' \<noteq> k"
  shows "interrupted_at k a (snd (resumeUpload k' m))"
proof (cases "map_get (activeUploads m) (Key k')")
  case None
  with assms show ?thesis by (simp add: resumeUpload_def)
next
  case (Some a')
  with assms have ne: "a' \<noteq> a" by (auto dest: ia_lookup)
  have "interrupted_at k a (m\<lparr>heap := (heap m)(a' := (heap m a')\<lparr>status := ''uploading''\<rparr>),
                        activeUploads := map_set (Key k') a' (activeUploads m)\<rparr>)"
    using assms(1) ne assms(2) by (rule ia_update)
  with Some assms(1) show ?thesis by (simp add: resumeUpload_def)
qed

lemma ia_serve:
  assumes "interrupted_at k a m" and "\<not> resumes_or_reuses k r"
  shows "interrupted_at k a (serve r m)"
proof (cases r)
  case GetUploads
  with assms show ?thesis by simp
next
  case (StartUpload k' now f folder env)
  with assms have ne: "k' \<noteq> k" by simp
  have 1: "interrupted_at k a (snd (startUpload k' now f folder m))"
    using assms(1) ne by (rule ia_startUpload)
  then have "interrupted_at k a (snd (processUpload k' f env (snd (startUpload k' now f folder m))))"
    using ne by (rule ia_processUpload)
  with 1 StartUpload show ?thesis
    by (auto simp: startUpload_run_def startUpload_def split: prod.splits sum.splits option.splits)
next
  case (PauseUpload k')
  with assms show ?thesis by (simp add: ia_pause)
next
  case (ResumeUpload k' env)
  with assms have ne: "k' \<noteq> k" by simp
  have 1: "interrupted_at k a (snd (resumeUpload k' m))"
    using assms(1) ne by (rule ia_resumeUpload)
  then have "interrupted_at k a (snd (processUpload k' NullFile env (snd (resumeUpload k' m))))"
    using ne by (rule ia_processUpload)
  with 1 ResumeUpload show ?thesis
    by (auto simp: resumeUpload_run_def split: prod.splits bool.splits)
next
  case (CancelUpload k' tok del)
  with assms show ?thesis by (simp add: ia_cancel)
qed

lemma ia_serve_all:
  "interrupted_at k a m \<Longrightarrow> \<forall>r \<in> set reqs. \<not> resumes_or_reuses k r \<Longrightarrow>
   interrupted_at k a (serve_all reqs m)"
  by (induction reqs arbitrary: m) (simp_all add: ia_serve)

lemma wf_interrupted_at:
  assumes "wf_registry m" and "map_get (activeUploads m) (Key k) = Some a"
    and "status (heap m a) = ''interrupted''"
  shows "interrupted_at k a m"
proof -
  from assms(2) have mem: "(Key k, a) \<in> set (activeUploads m)" by (rule map_get_in_set)
  from assms(1) have i1: "inj_on fst (set (activeUploads m))" and i2: "inj_on snd (set (activeUploads m))"
    by (simp_all add: wf_registry_def distinct_map)
  have "\<forall>p \<in> set (activeUploads m). (snd p = a) = (fst p = Key k)"
  proof
    fix p assume p: "p \<in> set (activeUploads m)"
    show "(snd p = a) = (fst p = Key k)"
    proof
      assume "snd p = a"
      then have "snd p = snd (Key k, a)" by simp
      with i2 have "p = (Key k, a)" using p mem by (rule inj_onD)
      then show "fst p = Key k" by simp
    next
      assume "fst p = Key k"
      then have "fst p = fst (Key k, a)" by simp
      with i1 have "p = (Key k, a)" using p mem by (rule inj_onD)
      then show "snd p = a" by simp
    qed
  qed
  moreover from assms(1) mem have "a < next_addr m" by (force simp: wf_registry_def)
  ultimately show ?thesis using assms(3) by (simp add: interrupted_at_def)
qed

lemma interrupted_at_lookup:
  assumes "interrupted_at k a m"
  shows "status (heap m a) = ''interrupted''"
    and "map_get (activeUploads m) (Key k) = Some a \<or> map_get (activeUploads m) (Key k) = None"
proof -
  from assms show "status (heap m a) = ''interrupted''" by (simp add: interrupted_at_def)
  show "map_get (activeUploads m) (Key k) = Some a \<or> map_get (activeUploads m) (Key k) = None"
  proof (cases "map_get (activeUploads m) (Key k)")
    case None
    then show ?thesis by simp
  next
    case (Some b)
    then have "(Key k, b) \<in> set (activeUploads m)" by (rule map_get_in_set)
    with assms have "b = a" by (auto simp: interrupted_at_def)
    with Some show ?thesis by simp
  qed
qed

subsection \<open>Loading the stored state\<close>















subsection \<open>Pause\<close>

text \<open>
  Claim C7. \<open>pauseUpload\<close> returns true exactly when the id is entered and its record
  has the status \<^verbatim>\<open>uploading\<close>; then that record, and no other, becomes \<^verbatim>\<open>paused\<close>.
  In every other case (an unknown id, any other status, \<^verbatim>\<open>completed\<close> included) it
  returns false and the whole state is as before.
\<close>

theorem pauseUpload_spec:
  "(fst (pauseUpload uploadId m) \<longleftrightarrow>
      (\<exists>a. map_get (activeUploads m) (Key uploadId) = Some a \<and> status (heap m a) = ''uploading''))
   \<and> (fst (pauseUpload uploadId m) \<longrightarrow>
        (\<exists>a. map_get (activeUploads m) (Key uploadId) = Some a
           \<and> activeUploads (snd (pauseUpload uploadId m)) = activeUploads m
           \<and> heap (snd (pauseUpload uploadId m)) = (heap m)(a := (heap m a)\<lparr>status := ''paused''\<rparr>)))
   \<and> (\<not> fst (pauseUpload uploadId m) \<longrightarrow> snd (pauseUpload uploadId m) = m)"
  by (auto simp: pauseUpload_def map_set_same split: option.splits)

theorem pauseUpload_spec_witness:
  "fst (pauseUpload ''u1'' example_manager)
   \<and> status (heap (snd (pauseUpload ''u1'' example_manager)) 0) = ''paused''
   \<and> \<not> fst (pauseUpload ''u2'' example_manager)
   \<and> snd (pauseUpload ''u2'' example_manager) = example_manager
   \<and> \<not> fst (pauseUpload ''u1'' (snd (pauseUpload ''u1'' example_manager)))
   \<and> \<not> fst (pauseUpload ''u1''
               (example_manager\<lparr>heap := (heap example_manager)(0 := example_upload\<lparr>status := ''completed''\<rparr>)\<rparr>))"
  using pauseUpload_spec [of "''u1''" example_manager] pauseUpload_spec [of "''u2''" example_manager]
  by (simp add: example_manager_def example_upload_def pauseUpload_def)

lemmas eval_defs = processUpload_def processUpload_try_def uploadChunks_def loop_body_def
  loop_condition_def uploadChunk_def record_progress_def periodic_def mark_completed_def
  mark_error_def mark_paused_def sendUpdateToUI_def savePersistedState_def map_values_def
  example_manager_def example_upload_def example_info_def example_env_def plain_event_def
  contentRange_def bearer_def string_of_int_def string_of_nat.simps digit_char_def Let_def
  pauseUpload_def cancelUpload_def bearer_opt_def

lemmas eval_more = eval_defs startUpload_run_def startUpload_def new_upload_def
  recoverInterruptedUploads_def open_session_def initResumableUpload_def resumeUpload_run_def
  resumeUpload_def getUploads_def

subsection \<open>The byte counter over time\<close>

text \<open>
  Claim C1. Let a record satisfy \<open>0 \<le> uploadedBytes \<le> size\<close> (\<open>bytes_ok\<close>) and have a
  chunk size that is not negative, as every record made by \<open>startUpload\<close> for a file of
  non-negative size does. Then every later value of the record has the same file and
  chunk size and a byte counter that is not smaller and not beyond the file size
  (\<open>bytes_step\<close>):
  \<^item> after one iteration of the chunk loop, whichever way the body is left, and the local
    \<^verbatim>\<open>startByte\<close> of the loop stays equal to the counter of its record;
  \<^item> at every point a transfer (\<open>processUpload\<close>) reaches, for every token, every
    response and every pause or cancel request served meanwhile, be the transfer
    finished or still pending;
  \<^item> from the point a transfer has reached with the events \<open>es\<close> to the point it reaches
    with the further events \<open>es2\<close>;
  \<^item> \<open>pauseUpload\<close>, \<open>resumeUpload\<close>, \<open>cancelUpload\<close> and the recovery at start-up keep
    the counter of every record, and \<open>startUpload\<close> leaves the existing objects alone.
\<close>

theorem uploadedBytes_monotone_bounded:
  assumes "bytes_ok (heap m b)" and "0 \<le> chunkSize (heap m b)"
  shows "(\<forall>a s e x s' m'. loop_condition a s m \<and> s = uploadedBytes (heap m a)
             \<and> loop_body k a f tok s e m = (x, s', m')
           \<longrightarrow> bytes_step (heap m b) (heap m' b) \<and> s' = uploadedBytes (heap m' a))
       \<and> bytes_step (heap m b) (heap (snd (processUpload k f env m)) b)
       \<and> bytes_step (heap (snd (processUpload k f (env\<lparr>env_events := es\<rparr>) m)) b)
            (heap (snd (processUpload k f (env\<lparr>env_events := es @ es2\<rparr>) m)) b)
       \<and> same_bytes (heap m b) (heap (snd (pauseUpload k m)) b)
       \<and> same_bytes (heap m b) (heap (snd (resumeUpload k m)) b)
       \<and> same_bytes (heap m b) (heap (snd (cancelUpload k tk del m)) b)
       \<and> same_bytes (heap m b) (heap (recoverInterruptedUploads m) b)
       \<and> (b \<noteq> next_addr m \<longrightarrow> heap (snd (startUpload k now f folder m)) b = heap m b)
       \<and> (\<forall>i. info_of f = Some i \<and> 0 \<le> f_size i \<longrightarrow>
             bytes_ok (heap (snd (startUpload k now f folder m)) (next_addr m))
             \<and> 0 \<le> chunkSize (heap (snd (startUpload k now f folder m)) (next_addr m)))"
proof -
  have body: "bytes_step (heap m b) (heap m' b) \<and> s' = uploadedBytes (heap m' a)"
    if c: "loop_condition a s m" and s: "s = uploadedBytes (heap m a)"
      and l: "loop_body k a f tok s e m = (x, s', m')" for a s e x s' m'
  proof
    show "bytes_step (heap m b) (heap m' b)"
    proof (cases "b = a")
      case True
      with assms(2) have "0 \<le> chunkSize (heap m a)" by simp
      with l c s show ?thesis using assms(1) by (rule loop_body_step)
    next
      case False
      from assms(1) loop_body_fields(1,2) [OF l, of b] loop_body_fields(7) [OF l False]
      show ?thesis by (rule bytes_step_same)
    qed
    from l s show "s' = uploadedBytes (heap m' a)" by (rule loop_body_track)
  qed
  have start: "bytes_ok (heap (snd (startUpload k now f folder m)) (next_addr m))
             \<and> 0 \<le> chunkSize (heap (snd (startUpload k now f folder m)) (next_addr m))"
    if "info_of f = Some i" and "0 \<le> f_size i" for i
    using that by (simp add: startUpload_heap new_upload_def bytes_ok_def)
  have other: "b \<noteq> next_addr m \<longrightarrow> heap (snd (startUpload k now f folder m)) b = heap m b"
    by (simp add: startUpload_heap split: option.splits)
  from body start other show ?thesis
    using processUpload_step [OF assms] processUpload_append_step [OF assms]
    by (intro conjI allI impI) (blast | simp)+
qed

theorem uploadedBytes_monotone_bounded_witness:
  "bytes_ok (heap example_manager 0) \<and> 0 \<le> chunkSize (heap example_manager 0)
   \<and> uploadedBytes (heap example_manager 0) = 0
   \<and> uploadedBytes (heap (snd (processUpload ''u1'' (BlobFile example_info)
        (example_env\<lparr>env_events := [plain_event (Resp 308)]\<rparr>) example_manager)) 0) = 5242880
   \<and> fst (processUpload ''u1'' (BlobFile example_info)
        (example_env\<lparr>env_events := [plain_event (Resp 308)]\<rparr>) example_manager) = Pending
   \<and> uploadedBytes (heap (snd (processUpload ''u1'' (BlobFile example_info)
        (example_env\<lparr>env_events := [plain_event (Resp 308)] @ [plain_event (Resp 308), plain_event (Resp 200)]\<rparr>)
           example_manager)) 0) = 12582912
   \<and> bytes_step (heap example_manager 0)
        (heap (snd (processUpload ''u1'' (BlobFile example_info) example_env example_manager)) 0)"
proof -
  have ok: "bytes_ok (heap example_manager 0)" and cs: "0 \<le> chunkSize (heap example_manager 0)"
    and z: "uploadedBytes (heap example_manager 0) = 0"
    by (simp_all add: bytes_ok_def example_manager_def example_upload_def example_info_def)
  have step: "bytes_step (heap example_manager 0)
        (heap (snd (processUpload ''u1'' (BlobFile example_info) example_env example_manager)) 0)"
    using uploadedBytes_monotone_bounded [OF ok cs, of "''u1''" "BlobFile example_info"
      "''tok''" example_env "[]" "[]" None "Resp 204" 0 None]
    by (rule conjunct1 [OF conjunct2])
  have e1: "uploadedBytes (heap (snd (processUpload ''u1'' (BlobFile example_info)
        (example_env\<lparr>env_events := [plain_event (Resp 308)]\<rparr>) example_manager)) 0) = 5242880"
    by (simp add: eval_defs)
  have e2: "fst (processUpload ''u1'' (BlobFile example_info)
        (example_env\<lparr>env_events := [plain_event (Resp 308)]\<rparr>) example_manager) = Pending"
    by (simp add: eval_defs)
  have e3: "uploadedBytes (heap (snd (processUpload ''u1'' (BlobFile example_info)
        (example_env\<lparr>env_events := [plain_event (Resp 308)] @ [plain_event (Resp 308), plain_event (Resp 200)]\<rparr>)
           example_manager)) 0) = 12582912"
    by (simp add: eval_defs)
  from ok cs z step e1 e2 e3 show ?thesis by (intro conjI)
qed

subsection \<open>Recovery at start-up\<close>

text \<open>
  Claim C2. \<open>initialize\<close> loads the stored state and then runs the recovery, before the
  message listener is installed. The recovery keeps the \<^verbatim>\<open>Map\<close>, turns exactly the
  records in it whose status is \<^verbatim>\<open>uploading\<close> or \<^verbatim>\<open>paused\<close> into \<^verbatim>\<open>interrupted\<close>
  records, leaves every other record as it is, and stores the snapshot of the result.
  A record that is \<^verbatim>\<open>interrupted\<close> stays so, under its id or removed by a cancel,
  through every sequence of requests that neither resumes it nor starts an upload under
  its id again; a resume request makes it \<^verbatim>\<open>uploading\<close>. The \<^verbatim>\<open>Map\<close> is taken as the
  source builds it (\<open>wf_registry\<close>), which holds after loading.
\<close>

theorem recovery_at_startup:
  assumes "wf_registry m"
  shows "initialize read_ok m0 = recoverInterruptedUploads (loadPersistedState read_ok m0)
     \<and> wf_registry (loadPersistedState read_ok (constructed snap sets))
     \<and> activeUploads (recoverInterruptedUploads m) = activeUploads m
     \<and> (\<forall>b. heap (recoverInterruptedUploads m) b =
            (if b \<in> set (getUploads m)
                \<and> (status (heap m b) = ''uploading'' \<or> status (heap m b) = ''paused'')
             then (heap m b)\<lparr>status := ''interrupted''\<rparr> else heap m b))
     \<and> stored_uploads (recoverInterruptedUploads m) =
          Entries (map (stored_entry_of (recoverInterruptedUploads m))
                     (getUploads (recoverInterruptedUploads m)))
     \<and> wf_registry (recoverInterruptedUploads m)
     \<and> (\<forall>k a reqs. map_get (activeUploads m) (Key k) = Some a \<and> status (heap m a) = ''interrupted''
            \<and> (\<forall>r \<in> set reqs. \<not> resumes_or_reuses k r)
          \<longrightarrow> status (heap (serve_all reqs m) a) = ''interrupted''
              \<and> (map_get (activeUploads (serve_all reqs m)) (Key k) = Some a
                  \<or> map_get (activeUploads (serve_all reqs m)) (Key k) = None))
     \<and> (\<forall>k a. map_get (activeUploads m) (Key k) = Some a \<and> status (heap m a) = ''interrupted''
          \<longrightarrow> fst (resumeUpload k m) \<and> status (heap (snd (resumeUpload k m)) a) = ''uploading'')"
proof -
  from assms have d: "distinct (map fst (activeUploads m))" by (simp add: wf_registry_def)
  have stays: "status (heap (serve_all reqs m) a) = ''interrupted''
              \<and> (map_get (activeUploads (serve_all reqs m)) (Key k) = Some a
                  \<or> map_get (activeUploads (serve_all reqs m)) (Key k) = None)"
    if "map_get (activeUploads m) (Key k) = Some a" and "status (heap m a) = ''interrupted''"
      and "\<forall>r \<in> set reqs. \<not> resumes_or_reuses k r" for k a reqs
  proof -
    from assms that(1,2) have "interrupted_at k a m" by (rule wf_interrupted_at)
    then have i: "interrupted_at k a (serve_all reqs m)" using that(3) by (rule ia_serve_all)
    show ?thesis using interrupted_at_lookup(1) [OF i] interrupted_at_lookup(2) [OF i] by simp
  qed
  have resume: "fst (resumeUpload k m) \<and> status (heap (snd (resumeUpload k m)) a) = ''uploading''"
    if "map_get (activeUploads m) (Key k) = Some a" and "status (heap m a) = ''interrupted''" for k a
    using that by (simp add: resumeUpload_def)
  have stored: "stored_uploads (recoverInterruptedUploads m) =
          Entries (map (stored_entry_of (recoverInterruptedUploads m))
                     (getUploads (recoverInterruptedUploads m)))"
    using d by (simp add: recoverInterruptedUploads_stored getUploads_def
        recoverInterruptedUploads_registry)
  have loaded: "wf_registry (loadPersistedState read_ok (constructed snap sets))"
    using wf_constructed by (rule wf_loadPersistedState)
  have c7: "\<forall>k a reqs. map_get (activeUploads m) (Key k) = Some a \<and> status (heap m a) = ''interrupted''
            \<and> (\<forall>r \<in> set reqs. \<not> resumes_or_reuses k r)
          \<longrightarrow> status (heap (serve_all reqs m) a) = ''interrupted''
              \<and> (map_get (activeUploads (serve_all reqs m)) (Key k) = Some a
                  \<or> map_get (activeUploads (serve_all reqs m)) (Key k) = None)"
  proof (intro allI impI)
    fix k a reqs
    assume h: "map_get (activeUploads m) (Key k) = Some a \<and> status (heap m a) = ''interrupted''
            \<and> (\<forall>r \<in> set reqs. \<not> resumes_or_reuses k r)"
    from h have 1: "map_get (activeUploads m) (Key k) = Some a" by (rule conjunct1)
    from h have 2: "status (heap m a) = ''interrupted''" by (rule conjunct1 [OF conjunct2])
    from h have 3: "\<forall>r \<in> set reqs. \<not> resumes_or_reuses k r" by (rule conjunct2 [OF conjunct2])
    from 1 2 3 show "status (heap (serve_all reqs m) a) = ''interrupted''
              \<and> (map_get (activeUploads (serve_all reqs m)) (Key k) = Some a
                  \<or> map_get (activeUploads (serve_all reqs m)) (Key k) = None)"
      by (rule stays)
  qed
  have c8: "\<forall>k a. map_get (activeUploads m) (Key k) = Some a \<and> status (heap m a) = ''interrupted''
          \<longrightarrow> fst (resumeUpload k m) \<and> status (heap (snd (resumeUpload k m)) a) = ''uploading''"
    by (simp add: resumeUpload_def)
  have c1: "initialize read_ok m0 = recoverInterruptedUploads (loadPersistedState read_ok m0)"
    by (simp add: initialize_def)
  have c3: "activeUploads (recoverInterruptedUploads m) = activeUploads m"
    using d by (rule recoverInterruptedUploads_registry)
  have c4: "\<forall>b. heap (recoverInterruptedUploads m) b =
            (if b \<in> set (getUploads m)
                \<and> (status (heap m b) = ''uploading'' \<or> status (heap m b) = ''paused'')
             then (heap m b)\<lparr>status := ''interrupted''\<rparr> else heap m b)"
    by (simp add: recoverInterruptedUploads_heap)
  have c6: "wf_registry (recoverInterruptedUploads m)"
    using assms by (rule wf_recoverInterruptedUploads)
  from c1 loaded c3 c4 stored c6 c7 c8 show ?thesis by (intro conjI)
qed

theorem recovery_at_startup_witness:
  "wf_registry example_manager
   \<and> status (heap example_manager 0) = ''uploading''
   \<and> wf_registry (recoverInterruptedUploads example_manager)
   \<and> status (heap (recoverInterruptedUploads example_manager) 0) = ''interrupted''
   \<and> status (heap (serve_all [PauseUpload ''u1'', GetUploads,
            StartUpload ''u2'' 7 (PlainObject example_info) None example_env,
            CancelUpload ''u2'' None (Resp 204)] (recoverInterruptedUploads example_manager)) 0)
        = ''interrupted''
   \<and> fst (resumeUpload ''u1'' (recoverInterruptedUploads example_manager))
   \<and> status (heap (snd (resumeUpload ''u1'' (recoverInterruptedUploads example_manager))) 0)
        = ''uploading''"
proof -
  have wf: "wf_registry example_manager"
    by (simp add: wf_registry_def example_manager_def)
  have wf2: "wf_registry (recoverInterruptedUploads example_manager)"
    using recovery_at_startup [OF wf, of True example_manager NoUploads None]
    by - (elim conjE, assumption)
  have s0: "status (heap example_manager 0) = ''uploading''"
    by (simp add: example_manager_def example_upload_def)
  have s1: "status (heap (recoverInterruptedUploads example_manager) 0) = ''interrupted''"
    by (simp add: eval_more)
  have s2: "status (heap (serve_all [PauseUpload ''u1'', GetUploads,
            StartUpload ''u2'' 7 (PlainObject example_info) None example_env,
            CancelUpload ''u2'' None (Resp 204)] (recoverInterruptedUploads example_manager)) 0)
        = ''interrupted''"
    by (simp add: eval_more)
  have s3: "fst (resumeUpload ''u1'' (recoverInterruptedUploads example_manager))"
    by (simp add: eval_more)
  have s4: "status (heap (snd (resumeUpload ''u1'' (recoverInterruptedUploads example_manager))) 0)
        = ''uploading''"
    by (simp add: eval_more)
  from wf s0 wf2 s1 s2 s3 s4 show ?thesis by (intro conjI)
qed

subsection \<open>Cancel by itself\<close>

lemma sent_ranges_append [simp]: "sent_ranges (xs @ ys) = sent_ranges xs @ sent_ranges ys"
  by (induction xs rule: sent_ranges.induct) simp_all

lemma delete_requests_append [simp]:
  "delete_requests (xs @ ys) = delete_requests xs @ delete_requests ys"
  by (induction xs rule: delete_requests.induct) simp_all

text \<open>\<open>cancelUpload\<close> by itself, with no transfer of the record suspended.\<close>

lemma cancelUpload_alone:
  "(fst (cancelUpload k tok del m) \<longleftrightarrow> map_get (activeUploads m) (Key k) \<noteq> None)
   \<and> (map_get (activeUploads m) (Key k) = None \<longrightarrow> snd (cancelUpload k tok del m) = m)
   \<and> (\<forall>a. map_get (activeUploads m) (Key k) = Some a \<longrightarrow>
         activeUploads (snd (cancelUpload k tok del m)) = map_delete (Key k) (activeUploads m)
         \<and> heap (snd (cancelUpload k tok del m)) = heap m
         \<and> stored_uploads (snd (cancelUpload k tok del m)) =
             Entries (map (stored_entry_of m) (map_values (map_delete (Key k) (activeUploads m))))
         \<and> delete_requests (effects (snd (cancelUpload k tok del m))) =
             delete_requests (effects m) @
               (if truthy (sessionUri (heap m a)) then [(the (sessionUri (heap m a)), bearer_opt tok)] else []))"
  by (auto simp: cancelUpload_def Let_def savePersistedState_def sendUpdateToUI_def
      stored_entry_of_def split: option.splits fetch_result.splits)

subsection \<open>Cancel while a transfer is suspended\<close>

text \<open>
  Claim C6. By itself \<open>cancelUpload\<close> does what the claim says (\<open>cancelUpload_alone\<close>):
  it returns true exactly for an id in the \<^verbatim>\<open>Map\<close>, removes the entry, stores the
  snapshot, and sends one \<^verbatim>\<open>DELETE\<close> when the session locator is truthy. But it leaves
  the status of the record alone, so a transfer of that record that is suspended at an
  \<^verbatim>\<open>await\<close> goes on, and its next \<^verbatim>\<open>this.activeUploads.set(uploadId, upload)\<close> enters
  the record again. Two runs:
  \<^item> an upload is started from the popup and cancelled while the token is awaited: the
    cancel returns true and empties the \<^verbatim>\<open>Map\<close>; when the transfer has ended, the
    record is in the \<^verbatim>\<open>Map\<close> and in the stored snapshot again, with status
    \<^verbatim>\<open>error\<close>;
  \<^item> the example upload is cancelled while its first chunk is in flight and the chunk is
    answered with 308: the \<^verbatim>\<open>DELETE\<close> was sent, the record is in the \<^verbatim>\<open>Map\<close> again
    with status \<^verbatim>\<open>uploading\<close>, and the loop waits for its next chunk.
\<close>

theorem cancel_then_entered_again:
  "fst (cancelUpload ''u2'' None (Resp 204)
          (snd (startUpload ''u2'' 7 (PlainObject example_info) None (constructed NoUploads None))))
   \<and> getUploads (snd (cancelUpload ''u2'' None (Resp 204)
          (snd (startUpload ''u2'' 7 (PlainObject example_info) None (constructed NoUploads None))))) = []
   \<and> getUploads (snd (snd (startUpload_run ''u2'' 7 (PlainObject example_info) None
          (example_env\<lparr>env_during_token := [CancelRequest ''u2'' None (Resp 204)]\<rparr>)
          (constructed NoUploads None)))) = [0]
   \<and> status (heap (snd (snd (startUpload_run ''u2'' 7 (PlainObject example_info) None
          (example_env\<lparr>env_during_token := [CancelRequest ''u2'' None (Resp 204)]\<rparr>)
          (constructed NoUploads None)))) 0) = ''error''
   \<and> fst (uploadChunks ''u1'' (BlobFile example_info) ''tok''
         [\<lparr>during_fetch = [CancelRequest ''u1'' (Some ''tok'') (Resp 204)],
           response = Resp 308, during_wait = []\<rparr>] example_manager) = Pending
   \<and> getUploads (snd (uploadChunks ''u1'' (BlobFile example_info) ''tok''
         [\<lparr>during_fetch = [CancelRequest ''u1'' (Some ''tok'') (Resp 204)],
           response = Resp 308, during_wait = []\<rparr>] example_manager)) = [0]
   \<and> delete_requests (effects (snd (uploadChunks ''u1'' (BlobFile example_info) ''tok''
         [\<lparr>during_fetch = [CancelRequest ''u1'' (Some ''tok'') (Resp 204)],
           response = Resp 308, during_wait = []\<rparr>] example_manager)))
        = [(''https://session/1'', ''Bearer tok'')]
   \<and> status (heap (snd (uploadChunks ''u1'' (BlobFile example_info) ''tok''
         [\<lparr>during_fetch = [CancelRequest ''u1'' (Some ''tok'') (Resp 204)],
           response = Resp 308, during_wait = []\<rparr>] example_manager)) 0) = ''uploading''"
proof -
  have c1: "fst (cancelUpload ''u2'' None (Resp 204)
          (snd (startUpload ''u2'' 7 (PlainObject example_info) None (constructed NoUploads None))))"
    by (simp add: eval_more constructed_def)
  have c2: "getUploads (snd (cancelUpload ''u2'' None (Resp 204)
          (snd (startUpload ''u2'' 7 (PlainObject example_info) None (constructed NoUploads None))))) = []"
    by (simp add: eval_more constructed_def)
  have c3: "getUploads (snd (snd (startUpload_run ''u2'' 7 (PlainObject example_info) None
          (example_env\<lparr>env_during_token := [CancelRequest ''u2'' None (Resp 204)]\<rparr>)
          (constructed NoUploads None)))) = [0]"
    by (simp add: eval_more constructed_def)
  have c4: "status (heap (snd (snd (startUpload_run ''u2'' 7 (PlainObject example_info) None
          (example_env\<lparr>env_during_token := [CancelRequest ''u2'' None (Resp 204)]\<rparr>)
          (constructed NoUploads None)))) 0) = ''error''"
    by (simp add: eval_more constructed_def)
  have c5: "fst (uploadChunks ''u1'' (BlobFile example_info) ''tok''
         [\<lparr>during_fetch = [CancelRequest ''u1'' (Some ''tok'') (Resp 204)],
           response = Resp 308, during_wait = []\<rparr>] example_manager) = Pending"
    by (simp add: eval_more constructed_def)
  have c6: "getUploads (snd (uploadChunks ''u1'' (BlobFile example_info) ''tok''
         [\<lparr>during_fetch = [CancelRequest ''u1'' (Some ''tok'') (Resp 204)],
           response = Resp 308, during_wait = []\<rparr>] example_manager)) = [0]"
    by (simp add: eval_more constructed_def)
  have c7: "delete_requests (effects (snd (uploadChunks ''u1'' (BlobFile example_info) ''tok''
         [\<lparr>during_fetch = [CancelRequest ''u1'' (Some ''tok'') (Resp 204)],
           response = Resp 308, during_wait = []\<rparr>] example_manager)))
        = [(''https://session/1'', ''Bearer tok'')]"
    by (simp add: eval_more constructed_def)
  have c8: "status (heap (snd (uploadChunks ''u1'' (BlobFile example_info) ''tok''
         [\<lparr>during_fetch = [CancelRequest ''u1'' (Some ''tok'') (Resp 204)],
           response = Resp 308, during_wait = []\<rparr>] example_manager)) 0) = ''uploading''"
    by (simp add: eval_more constructed_def)
  from c1 c2 c3 c4 c5 c6 c7 c8 show ?thesis by (intro conjI)
qed

subsection \<open>Resume\<close>

text \<open>\<open>resumeUpload\<close> up to the call of \<open>processUpload\<close>.\<close>

lemma resumeUpload_alone:
  "(fst (resumeUpload k m) \<longleftrightarrow>
      (\<exists>a. map_get (activeUploads m) (Key k) = Some a
         \<and> (status (heap m a) = ''paused'' \<or> status (heap m a) = ''interrupted'')))
   \<and> (\<not> fst (resumeUpload k m) \<longrightarrow> snd (resumeUpload k m) = m)
   \<and> (\<forall>a. fst (resumeUpload k m) \<and> map_get (activeUploads m) (Key k) = Some a \<longrightarrow>
         heap (snd (resumeUpload k m)) = (heap m)(a := (heap m a)\<lparr>status := ''uploading''\<rparr>)
         \<and> activeUploads (snd (resumeUpload k m)) = activeUploads m)"
  by (auto simp: resumeUpload_def map_set_same split: option.splits)

text \<open>With the \<^verbatim>\<open>null\<close> file the chunk loop sends nothing and changes nothing.\<close>

lemma loop_null_file:
  "snd (snd (uploadChunks_loop k a NullFile tok s es m)) = m
   \<and> fst (uploadChunks_loop k a NullFile tok s es m) \<noteq> Pending"
  by (cases es) (simp_all add: loop_body_def)

lemma resume_sends_no_chunk:
  "sent_ranges (effects (snd (uploadChunks k NullFile tok es m))) = sent_ranges (effects m)"
  using loop_null_file [of k _ tok _ es m]
  by (simp add: uploadChunks_def case_prod_beta split: option.splits)

text \<open>
  Claim C4. \<open>resumeUpload\<close> returns true exactly for a record that is \<^verbatim>\<open>paused\<close> or
  \<^verbatim>\<open>interrupted\<close> and makes it \<^verbatim>\<open>uploading\<close>; otherwise it returns false and changes
  nothing (\<open>resumeUpload_alone\<close>). But it takes no file and calls
  \<^verbatim>\<open>this.processUpload(uploadId, null)\<close>, and the chunk loop evaluates
  \<^verbatim>\<open>file.slice(startByte, endByte)\<close> before its \<^verbatim>\<open>try\<close>. For the example upload, paused
  with 5 MiB of 12 MiB acknowledged: the resume returns true, the transfer ends at once,
  no chunk request is sent, the record keeps its 5 MiB and has the status \<^verbatim>\<open>error\<close>
  with the message of the \<^verbatim>\<open>TypeError\<close>.
\<close>

theorem resume_ends_in_error:
  "fst (resumeUpload_run ''u1'' example_env paused_manager)
   \<and> fst (snd (resumeUpload_run ''u1'' example_env paused_manager)) = Returned
   \<and> sent_ranges (effects (snd (snd (resumeUpload_run ''u1'' example_env paused_manager)))) = []
   \<and> uploadedBytes (heap (snd (snd (resumeUpload_run ''u1'' example_env paused_manager))) 0) = 5242880
   \<and> status (heap (snd (snd (resumeUpload_run ''u1'' example_env paused_manager))) 0) = ''error''
   \<and> error (heap (snd (snd (resumeUpload_run ''u1'' example_env paused_manager))) 0)
        = Some ''Cannot read properties of null (reading 'slice')''"
proof -
  have c1: "fst (resumeUpload_run ''u1'' example_env paused_manager)"
    by (simp add: eval_more paused_manager_def)
  have c2: "fst (snd (resumeUpload_run ''u1'' example_env paused_manager)) = Returned"
    by (simp add: eval_more paused_manager_def)
  have c3: "sent_ranges (effects (snd (snd (resumeUpload_run ''u1'' example_env paused_manager)))) = []"
    by (simp add: eval_more paused_manager_def)
  have c4: "uploadedBytes (heap (snd (snd (resumeUpload_run ''u1'' example_env paused_manager))) 0) = 5242880"
    by (simp add: eval_more paused_manager_def)
  have c5: "status (heap (snd (snd (resumeUpload_run ''u1'' example_env paused_manager))) 0) = ''error''"
    by (simp add: eval_more paused_manager_def)
  have c6: "error (heap (snd (snd (resumeUpload_run ''u1'' example_env paused_manager))) 0)
        = Some ''Cannot read properties of null (reading 'slice')''"
    by (simp add: eval_more paused_manager_def)
  from c1 c2 c3 c4 c5 c6 show ?thesis by (intro conjI)
qed

subsection \<open>Error messages and the word \<^verbatim>\<open>pause\<close>\<close>

lemma delays_append [simp]: "delays (xs @ ys) = delays xs @ delays ys"
  by (induction xs rule: delays.induct) simp_all

lemma includes_str_hd: "includes_str xs (c # cs) \<Longrightarrow> c \<in> set xs"
  by (induction xs) auto

lemma digit_char_set: "d < 10 \<Longrightarrow> digit_char d \<in> set ''0123456789''"
proof -
  assume "d < 10"
  then have "d \<in> {0, 1, 2, 3, 4, 5, 6, 7, 8, 9}" by auto
  then show ?thesis by (auto simp: digit_char_def)
qed

lemma string_of_nat_digits: "set (string_of_nat n) \<subseteq> set ''0123456789''"
proof (induction n rule: string_of_nat.induct)
  case (1 n)
  show ?case
  proof (cases "n < 10")
    case True
    with digit_char_set [of n] show ?thesis by (subst string_of_nat.simps) simp
  next
    case False
    have "n mod 10 < 10" by simp
    with digit_char_set [of "n mod 10"] 1 False show ?thesis
      by (subst string_of_nat.simps) simp
  qed
qed

lemma string_of_int_no_p: "CHR ''p'' \<notin> set (string_of_int i)"
  using string_of_nat_digits [of "nat i"] string_of_nat_digits [of "nat (- i)"]
  by (auto simp: string_of_int_def)

lemma status_message_no_pause:
  "\<not> includes_str (''Upload failed with status: '' @ string_of_int st) ''pause''"
proof -
  have "\<not> includes_str (string_of_int st) ''pause''"
    using includes_str_hd [of "string_of_int st" "CHR ''p''" "''ause''"] string_of_int_no_p [of st]
    by auto
  then show ?thesis by simp
qed

lemma status_message_example: "string_of_int 5242879 = ''5242879''"
  by (simp add: string_of_int_def string_of_nat.simps digit_char_def)

lemma session_message_no_pause: "\<not> includes_str ''Upload session not found'' ''pause''"
  by simp

subsection \<open>What the loop does with a response\<close>

lemma log_savePersistedState [simp]:
  "sent_ranges (effects (savePersistedState m)) = sent_ranges (effects m)"
  "delays (effects (savePersistedState m)) = delays (effects m)"
  by simp_all

lemma log_sendUpdateToUI [simp]:
  "sent_ranges (effects (sendUpdateToUI k m)) = sent_ranges (effects m)"
  "delays (effects (sendUpdateToUI k m)) = delays (effects m)"
  by (simp_all add: sendUpdateToUI_def split: option.splits)

lemma log_pauseUpload [simp]:
  "sent_ranges (effects (snd (pauseUpload k m))) = sent_ranges (effects m)"
  "delays (effects (snd (pauseUpload k m))) = delays (effects m)"
  by (simp_all add: pauseUpload_def split: option.splits)

lemma log_cancelUpload [simp]:
  "sent_ranges (effects (snd (cancelUpload k tok del m))) = sent_ranges (effects m)"
  "delays (effects (snd (cancelUpload k tok del m))) = delays (effects m)"
  by (simp_all add: cancelUpload_def Let_def split: option.splits fetch_result.splits)

lemma log_run_interference [simp]:
  "sent_ranges (effects (run_interference xs m)) = sent_ranges (effects m)"
  "delays (effects (run_interference xs m)) = delays (effects m)"
  by (induction xs m rule: run_interference.induct) simp_all











lemma owns_effects [simp]: "owns k a (m\<lparr>effects := e\<rparr>) = owns k a m"
  by (simp add: owns_def)








text \<open>After the removal.\<close>

lemma removed_pause:
  assumes "removed k a m"
  shows "removed k a (snd (pauseUpload k' m))" and "heap (snd (pauseUpload k' m)) a = heap m a"
proof -
  show "removed k a (snd (pauseUpload k' m))" using assms by (simp add: removed_def)
  show "heap (snd (pauseUpload k' m)) a = heap m a"
  proof (cases "map_get (activeUploads m) (Key k')")
    case None
    then show ?thesis by (simp add: pauseUpload_def)
  next
    case (Some a')
    then have "(Key k', a') \<in> set (activeUploads m)" by (rule map_get_in_set)
    with assms have "a' \<noteq> a" by (auto simp: removed_def)
    with Some show ?thesis by (simp add: pauseUpload_def)
  qed
qed

lemma removed_cancel:
  "removed k a m \<Longrightarrow> removed k a (snd (cancelUpload k' tok del m))"
  using set_map_delete [of "Key k'" "activeUploads m"]
  by (auto simp: removed_def cancelUpload_registry)

lemma removed_interference:
  "removed k a m \<Longrightarrow>
   removed k a (run_interference xs m) \<and> heap (run_interference xs m) a = heap m a"
proof (induction xs m rule: run_interference.induct)
  case (1 m)
  then show ?case by simp
next
  case (2 uploadId rest m)
  from "2.prems" have o: "removed k a (snd (pauseUpload uploadId m))"
    and h: "heap (snd (pauseUpload uploadId m)) a = heap m a"
    by (rule removed_pause)+
  from "2.IH" [OF o] h show ?case by simp
next
  case (3 uploadId tok del rest m)
  from "3.prems" have o: "removed k a (snd (cancelUpload uploadId tok del m))"
    by (rule removed_cancel)
  from "3.IH" [OF o] show ?case by simp
qed

lemma removed_effects [simp]: "removed k a (m\<lparr>effects := e\<rparr>) = removed k a m"
  by (simp add: removed_def)

lemma removed_lookup: "removed k a m \<Longrightarrow> map_get (activeUploads m) (Key k) = None"
  by (force simp: removed_def map_get_None_iff)

lemma loop_body_removed:
  assumes "removed k a m" and "slice_error f = None"
  shows "loop_body k a f tok s e m =
     (None, s, run_interference (during_wait e) (m\<lparr>effects := effects m @ [Delay 2000]\<rparr>))"
  using assms(2) removed_lookup [OF assms(1)]
  by (simp add: loop_body_def uploadChunk_def Let_def)

lemma loop_removed:
  assumes "slice_error f = None"
  shows "removed k a m \<Longrightarrow> loop_condition a s m \<Longrightarrow>
     fst (uploadChunks_loop k a f tok s es m) = Pending
     \<and> sent_ranges (effects (snd (snd (uploadChunks_loop k a f tok s es m))))
          = sent_ranges (effects m)
     \<and> delays (effects (snd (snd (uploadChunks_loop k a f tok s es m))))
          = delays (effects m) @ replicate (length es) 2000"
proof (induction es arbitrary: m)
  case Nil
  with assms show ?case by simp
next
  case (Cons e es)
  let ?m1 = "m\<lparr>effects := effects m @ [Delay 2000]\<rparr>"
  let ?m' = "run_interference (during_wait e) ?m1"
  have b: "loop_body k a f tok s e m = (None, s, ?m')"
    using Cons.prems(1) assms by (rule loop_body_removed)
  have r1: "removed k a ?m1" using Cons.prems(1) by simp
  from removed_interference [OF r1] have r: "removed k a ?m'" and h: "heap ?m' a = heap m a"
    by simp_all
  from h Cons.prems(2) have c: "loop_condition a s ?m'" by (simp add: loop_condition_def)
  have step: "uploadChunks_loop k a f tok s (e # es) m = uploadChunks_loop k a f tok s es ?m'"
    using Cons.prems(2) b by simp
  note ih = Cons.IH [OF r c]
  show ?case
    unfolding step using ih by (simp add: replicate_app_Cons_same)
qed

text \<open>Requests for the upload itself, served during a round.\<close>

lemma interference_stays_paused:
  "status (heap m a) = ''paused'' \<Longrightarrow> status (heap (run_interference xs m) a) = ''paused''"
  using run_interference_status [of xs m a] by auto


lemma distinct_pause [simp]:
  "distinct (map fst (activeUploads (snd (pauseUpload k' m)))) = distinct (map fst (activeUploads m))"
  by simp





lemma distinct_effects [simp]:
  "distinct (map fst (activeUploads (m\<lparr>effects := e\<rparr>))) = distinct (map fst (activeUploads m))"
  by simp











subsection \<open>The stored settings\<close>

text \<open>Every function of the engine commutes with a change of the stored settings.\<close>

lemma with_settings_proj [simp]:
  "heap (with_settings st m) = heap m"
  "others (with_settings st m) = others m"
  "next_addr (with_settings st m) = next_addr m"
  "activeUploads (with_settings st m) = activeUploads m"
  "stored_uploads (with_settings st m) = stored_uploads m"
  "effects (with_settings st m) = effects m"
  by (simp_all add: with_settings_def)

lemma with_settings_pull:
  "(with_settings st m)\<lparr>heap := h\<rparr> = with_settings st (m\<lparr>heap := h\<rparr>)"
  "(with_settings st m)\<lparr>others := v\<rparr> = with_settings st (m\<lparr>others := v\<rparr>)"
  "(with_settings st m)\<lparr>next_addr := n\<rparr> = with_settings st (m\<lparr>next_addr := n\<rparr>)"
  "(with_settings st m)\<lparr>activeUploads := r\<rparr> = with_settings st (m\<lparr>activeUploads := r\<rparr>)"
  "(with_settings st m)\<lparr>stored_uploads := u\<rparr> = with_settings st (m\<lparr>stored_uploads := u\<rparr>)"
  "(with_settings st m)\<lparr>effects := e\<rparr> = with_settings st (m\<lparr>effects := e\<rparr>)"
  by (simp_all add: with_settings_def)

lemma stored_entry_of_with_settings [simp]:
  "stored_entry_of (with_settings st m) = stored_entry_of m"
  by (rule stored_entry_of_cong) simp_all

lemma settings_savePersistedState [simp]:
  "savePersistedState (with_settings st m) = with_settings st (savePersistedState m)"
  by (simp add: savePersistedState_def with_settings_pull)

lemma settings_sendUpdateToUI [simp]:
  "sendUpdateToUI k (with_settings st m) = with_settings st (sendUpdateToUI k m)"
  by (simp add: sendUpdateToUI_def with_settings_pull split: option.splits)

lemma settings_pauseUpload [simp]:
  "pauseUpload k (with_settings st m)
     = apsnd (with_settings st) (pauseUpload k m)"
  by (simp add: pauseUpload_def with_settings_pull split: option.splits)

lemma settings_cancelUpload [simp]:
  "cancelUpload k tok del (with_settings st m)
     = apsnd (with_settings st) (cancelUpload k tok del m)"
  by (simp add: cancelUpload_def Let_def with_settings_pull split: option.splits fetch_result.splits)

lemma settings_run_interference [simp]:
  "run_interference xs (with_settings st m) = with_settings st (run_interference xs m)"
  by (induction xs m rule: run_interference.induct) simp_all

lemma settings_uploadChunk [simp]:
  "uploadChunk k s e tok ev (with_settings st m)
     = apsnd (with_settings st) (uploadChunk k s e tok ev m)"
  by (simp add: uploadChunk_def Let_def with_settings_pull split: option.splits fetch_result.splits)

lemma settings_record_progress [simp]:
  "record_progress k a e (with_settings st m) = with_settings st (record_progress k a e m)"
  by (simp add: record_progress_def with_settings_pull)

lemma settings_mark_paused [simp]:
  "mark_paused k a (with_settings st m) = with_settings st (mark_paused k a m)"
  by (simp add: mark_paused_def with_settings_pull)

lemma settings_mark_completed [simp]:
  "mark_completed k a now (with_settings st m) = with_settings st (mark_completed k a now m)"
  by (simp add: mark_completed_def with_settings_pull)

lemma settings_mark_error [simp]:
  "mark_error k a msg (with_settings st m) = with_settings st (mark_error k a msg m)"
  by (simp add: mark_error_def with_settings_pull)

lemma settings_loop_condition [simp]:
  "loop_condition a s (with_settings st m) = loop_condition a s m"
  by (simp add: loop_condition_def)

lemma settings_loop_body [simp]:
  "loop_body k a f tok s e (with_settings st m)
     = apsnd (apsnd (with_settings st)) (loop_body k a f tok s e m)"
  by (simp add: loop_body_def Let_def case_prod_beta with_settings_pull split: option.splits)

lemma settings_loop [simp]:
  "uploadChunks_loop k a f tok s es (with_settings st m)
     = apsnd (apsnd (with_settings st)) (uploadChunks_loop k a f tok s es m)"
proof (induction es arbitrary: s m)
  case Nil
  show ?case by (simp split: option.splits)
next
  case (Cons e es)
  obtain x s' m' where b: "loop_body k a f tok s e m = (x, s', m')"
    by (cases "loop_body k a f tok s e m")
  show ?case
  proof (cases "loop_condition a s m")
    case False
    then show ?thesis by simp
  next
    case True
    with b Cons.IH [of s' m'] show ?thesis by (cases x) simp_all
  qed
qed

lemma settings_uploadChunks [simp]:
  "uploadChunks k f tok es (with_settings st m)
     = apsnd (with_settings st) (uploadChunks k f tok es m)"
  by (simp add: uploadChunks_def case_prod_beta split: option.splits)

lemma settings_initResumableUpload [simp]:
  "initResumableUpload u tok ini (with_settings st m)
     = apsnd (with_settings st) (initResumableUpload u tok ini m)"
  by (auto simp: initResumableUpload_def Let_def with_settings_pull split: init_result.splits)

lemma settings_open_session [simp]:
  "open_session k a tok env (with_settings st m)
     = apsnd (with_settings st) (open_session k a tok env m)"
  by (simp add: open_session_def Let_def case_prod_beta with_settings_pull split: sum.splits)

lemma settings_processUpload_try [simp]:
  "processUpload_try k a f env (with_settings st m)
     = apsnd (with_settings st) (processUpload_try k a f env m)"
  by (simp add: processUpload_try_def Let_def case_prod_beta split: option.splits outcome.splits)

lemma settings_processUpload [simp]:
  "processUpload k f env (with_settings st m)
     = apsnd (with_settings st) (processUpload k f env m)"
  by (simp add: processUpload_def case_prod_beta split: option.splits outcome.splits)

lemma settings_startUpload [simp]:
  "startUpload k now f folder (with_settings st m)
     = apsnd (with_settings st) (startUpload k now f folder m)"
  by (simp add: startUpload_def with_settings_pull split: option.splits)

lemma settings_startUpload_run:
  "startUpload_run k now f folder env (with_settings st m)
     = apsnd (apsnd (with_settings st)) (startUpload_run k now f folder env m)"
  by (simp add: startUpload_run_def case_prod_beta split: sum.splits)

lemma saveSettings_with_settings:
  "saveSettings fo sc = with_settings (Some \<lparr>defaultFolderId = fo, settings_chunkSize = sc\<rparr>)"
  by (rule ext) (simp add: saveSettings_def with_settings_def)

lemma with_settings_same: "with_settings (stored_settings m) m = m"
  by (simp add: with_settings_def)

lemma stored_settings_with_settings [simp]: "stored_settings (with_settings st m) = st"
  by (simp add: with_settings_def)

lemma settings_resumeUpload [simp]:
  "resumeUpload k (with_settings st m) = apsnd (with_settings st) (resumeUpload k m)"
  by (simp add: resumeUpload_def with_settings_pull split: option.splits)

lemma settings_resumeUpload_run:
  "resumeUpload_run k env (with_settings st m)
     = apsnd (apsnd (with_settings st)) (resumeUpload_run k env m)"
  by (simp add: resumeUpload_run_def case_prod_beta split: bool.splits)

lemma settings_serve: "serve r (with_settings st m) = with_settings st (serve r m)"
  by (cases r) (simp_all add: settings_startUpload_run settings_resumeUpload_run)

lemma settings_serve_all: "serve_all reqs (with_settings st m) = with_settings st (serve_all reqs m)"
  by (induction reqs arbitrary: m) (simp_all add: settings_serve)

lemma settings_load_entries:
  "load_entries es (with_settings st m) = with_settings st (load_entries es m)"
  by (induction es m rule: load_entries.induct) (simp_all add: with_settings_pull)

lemma settings_loadPersistedState:
  "loadPersistedState ok (with_settings st m) = with_settings st (loadPersistedState ok m)"
  by (simp add: loadPersistedState_def settings_load_entries split: snapshot.splits)

lemma settings_recover_loop:
  "recover_loop kvs (with_settings st m) = with_settings st (recover_loop kvs m)"
proof (induction kvs arbitrary: m)
  case Nil
  show ?case by simp
next
  case (Cons p kvs)
  obtain k a where p: "p = (k, a)" by (cases p)
  show ?case by (simp add: p with_settings_pull Cons.IH)
qed

lemma settings_initialize:
  "initialize ok (with_settings st m) = with_settings st (initialize ok m)"
  by (simp add: initialize_def recoverInterruptedUploads_def settings_loadPersistedState
      settings_recover_loop)

lemma settings_kept: "stored_settings (serve_all reqs m) = stored_settings m"
proof -
  have "serve_all reqs (with_settings (stored_settings m) m)
          = with_settings (stored_settings m) (serve_all reqs m)"
    by (rule settings_serve_all)
  then have "serve_all reqs m = with_settings (stored_settings m) (serve_all reqs m)"
    by (simp only: with_settings_same)
  then have "stored_settings (serve_all reqs m)
          = stored_settings (with_settings (stored_settings m) (serve_all reqs m))"
    by (rule arg_cong)
  then show ?thesis by simp
qed

lemma loop_chunkSize:
  "chunkSize (heap (snd (snd (uploadChunks_loop k a f tok s es m))) b) = chunkSize (heap m b)"
proof -
  define I where "I = (\<lambda>(s'::int) (m'::manager). chunkSize (heap m' b) = chunkSize (heap m b))"
  have "I (fst (snd (uploadChunks_loop k a f tok s es m)))
           (snd (snd (uploadChunks_loop k a f tok s es m)))"
  proof (rule loop_invariant [where I = I])
    show "I s m" by (simp add: I_def)
  next
    fix s m1 e x s' m'
    assume "I s m1" and b: "loop_body k a f tok s e m1 = (x, s', m')"
    with loop_body_fields(2) [OF b, of b] show "I s' m'" by (simp add: I_def)
  qed
  then show ?thesis by (simp add: I_def)
qed

lemma uploadChunks_chunkSize:
  "chunkSize (heap (snd (uploadChunks k f tok es m)) b) = chunkSize (heap m b)"
  by (simp add: uploadChunks_def case_prod_beta loop_chunkSize split: option.splits)

lemma same_bytes_chunkSize: "same_bytes u v \<Longrightarrow> chunkSize v = chunkSize u"
  by (simp add: same_bytes_def)

lemma processUpload_try_chunkSize:
  "chunkSize (heap (snd (processUpload_try k a f env m)) b) = chunkSize (heap m b)"
proof (cases "truthy (env_token env)")
  case False
  then show ?thesis by (simp add: processUpload_try_auth)
next
  case True
  obtain t m2 where p: "session_prefix k a env m = (t, m2)"
    by (cases "session_prefix k a env m")
  have s2: "chunkSize (heap m2 b) = chunkSize (heap m b)"
    using session_prefix_same [of m b k a env] p by (simp add: same_bytes_def)
  show ?thesis
  proof (cases t)
    case (Some msg)
    with True p s2 show ?thesis by (simp add: processUpload_try_init)
  next
    case None
    from processUpload_try_chunks_same [OF True p [unfolded None], of f b]
    have "chunkSize (heap (snd (processUpload_try k a f env m)) b)
        = chunkSize (heap (snd (uploadChunks k f (the (env_token env)) (env_events env) m2)) b)"
      by (rule same_bytes_chunkSize)
    with s2 show ?thesis by (simp add: uploadChunks_chunkSize)
  qed
qed

lemma processUpload_chunkSize:
  "chunkSize (heap (snd (processUpload k f env m)) b) = chunkSize (heap m b)"
proof (cases "map_get (activeUploads m) (Key k)")
  case None
  then show ?thesis by (simp add: processUpload_def)
next
  case (Some a)
  from processUpload_same_try [OF Some, of f env b]
  have "chunkSize (heap (snd (processUpload k f env m)) b)
      = chunkSize (heap (snd (processUpload_try k a f env m)) b)"
    by (rule same_bytes_chunkSize)
  then show ?thesis by (simp add: processUpload_try_chunkSize)
qed

text \<open>
  Claim C10. \<open>startUpload\<close> gives the record it creates the chunk size \<open>5 * 1024 * 1024\<close>,
  and the transfer it starts leaves that value as it is. What the options page has stored
  under the key \<^verbatim>\<open>settings\<close> takes no part: every request served, and the start-up, give
  the same result with and without \<open>saveSettings\<close> before them, but for the stored
  settings themselves, which the engine never writes; so the requests sent and all
  records are the same.
\<close>

theorem chunk_size_fixed:
  "(\<forall>i. info_of f = Some i \<longrightarrow>
       fst (startUpload k now f folder m) = Inr k
       \<and> map_get (activeUploads (snd (startUpload k now f folder m))) (Key k) = Some (next_addr m)
       \<and> chunkSize (heap (snd (startUpload k now f folder m)) (next_addr m)) = 5 * 1024 * 1024
       \<and> chunkSize (heap (snd (snd (startUpload_run k now f folder env m))) (next_addr m))
            = 5 * 1024 * 1024)
   \<and> startUpload_run k now f folder env (saveSettings fo sc m)
        = apsnd (apsnd (saveSettings fo sc)) (startUpload_run k now f folder env m)
   \<and> serve_all reqs (saveSettings fo sc m) = saveSettings fo sc (serve_all reqs m)
   \<and> initialize read_ok (saveSettings fo sc m) = saveSettings fo sc (initialize read_ok m)
   \<and> effects (serve_all reqs (saveSettings fo sc m)) = effects (serve_all reqs m)
   \<and> heap (serve_all reqs (saveSettings fo sc m)) = heap (serve_all reqs m)
   \<and> stored_settings (serve_all reqs m) = stored_settings m"
proof -
  have 1: "\<forall>i. info_of f = Some i \<longrightarrow>
       fst (startUpload k now f folder m) = Inr k
       \<and> map_get (activeUploads (snd (startUpload k now f folder m))) (Key k) = Some (next_addr m)
       \<and> chunkSize (heap (snd (startUpload k now f folder m)) (next_addr m)) = 5 * 1024 * 1024
       \<and> chunkSize (heap (snd (snd (startUpload_run k now f folder env m))) (next_addr m))
            = 5 * 1024 * 1024"
  proof (intro allI impI)
    fix i assume i: "info_of f = Some i"
    have a: "fst (startUpload k now f folder m) = Inr k" using i by (simp add: startUpload_def)
    have b: "map_get (activeUploads (snd (startUpload k now f folder m))) (Key k) = Some (next_addr m)"
      using i by (simp add: startUpload_def map_get_map_set)
    have c: "chunkSize (heap (snd (startUpload k now f folder m)) (next_addr m)) = 5 * 1024 * 1024"
      using i by (simp add: startUpload_heap new_upload_def)
    have "snd (snd (startUpload_run k now f folder env m))
            = snd (processUpload k f env (snd (startUpload k now f folder m)))"
      using i by (simp add: startUpload_run_def startUpload_def)
    then have d: "chunkSize (heap (snd (snd (startUpload_run k now f folder env m))) (next_addr m))
            = 5 * 1024 * 1024"
      using c by (simp add: processUpload_chunkSize)
    from a b c d show "fst (startUpload k now f folder m) = Inr k
       \<and> map_get (activeUploads (snd (startUpload k now f folder m))) (Key k) = Some (next_addr m)
       \<and> chunkSize (heap (snd (startUpload k now f folder m)) (next_addr m)) = 5 * 1024 * 1024
       \<and> chunkSize (heap (snd (snd (startUpload_run k now f folder env m))) (next_addr m))
            = 5 * 1024 * 1024"
      by (intro conjI)
  qed
  have 2: "startUpload_run k now f folder env (saveSettings fo sc m)
        = apsnd (apsnd (saveSettings fo sc)) (startUpload_run k now f folder env m)"
    unfolding saveSettings_with_settings by (rule settings_startUpload_run)
  have 3: "serve_all reqs (saveSettings fo sc m) = saveSettings fo sc (serve_all reqs m)"
    unfolding saveSettings_with_settings by (rule settings_serve_all)
  have 4: "initialize read_ok (saveSettings fo sc m) = saveSettings fo sc (initialize read_ok m)"
    unfolding saveSettings_with_settings by (rule settings_initialize)
  have 5: "effects (serve_all reqs (saveSettings fo sc m)) = effects (serve_all reqs m)"
    unfolding 3 by (simp add: saveSettings_def)
  have 6: "heap (serve_all reqs (saveSettings fo sc m)) = heap (serve_all reqs m)"
    unfolding 3 by (simp add: saveSettings_def)
  have 7: "stored_settings (serve_all reqs m) = stored_settings m" by (rule settings_kept)
  from 1 2 3 4 5 6 7 show ?thesis by (intro conjI)
qed

theorem chunk_size_fixed_witness:
  "info_of (BlobFile example_info) = Some example_info
   \<and> stored_settings (saveSettings None 1048576 (constructed NoUploads None))
        = Some \<lparr>defaultFolderId = None, settings_chunkSize = 1048576\<rparr>
   \<and> chunkSize (heap (snd (startUpload ''u2'' 7 (BlobFile example_info) None
        (saveSettings None 1048576 (constructed NoUploads None)))) 0) = 5242880
   \<and> chunkSize (heap (snd (snd (startUpload_run ''u2'' 7 (BlobFile example_info) None example_env
        (saveSettings None 1048576 (constructed NoUploads None))))) 0) = 5242880
   \<and> sent_ranges (effects (snd (snd (startUpload_run ''u2'' 7 (BlobFile example_info) None example_env
        (saveSettings None 1048576 (constructed NoUploads None))))))
        = [(0, 5242880), (5242880, 10485760), (10485760, 12582912)]"
proof -
  let ?m = "saveSettings None 1048576 (constructed NoUploads None)"
  have i: "info_of (BlobFile example_info) = Some example_info" by simp
  have s: "stored_settings ?m = Some \<lparr>defaultFolderId = None, settings_chunkSize = 1048576\<rparr>"
    by (simp add: saveSettings_def)
  have n: "next_addr ?m = 0" by (simp add: saveSettings_def constructed_def)
  note t = chunk_size_fixed [of "BlobFile example_info" "''u2''" 7 None ?m example_env,
      THEN conjunct1, rule_format, OF i]
  from t have c1: "chunkSize (heap (snd (startUpload ''u2'' 7 (BlobFile example_info) None ?m)) 0)
      = 5242880"
    by (simp add: n)
  from t have c2: "chunkSize (heap (snd (snd (startUpload_run ''u2'' 7 (BlobFile example_info) None
      example_env ?m))) 0) = 5242880"
    by (simp add: n)
  have c3: "sent_ranges (effects (snd (snd (startUpload_run ''u2'' 7 (BlobFile example_info) None
      example_env ?m)))) = [(0, 5242880), (5242880, 10485760), (10485760, 12582912)]"
    by (simp add: eval_more saveSettings_def constructed_def)
  from i s c1 c2 c3 show ?thesis by (intro conjI)
qed

end
